theory Spec2Isabelle
  imports Main "HOL-Library.Word"
begin

section \<open>Connection registry (WebSocketManager)\<close>

text \<open>
  The registry of \<^verbatim>\<open>dist/server/WebSocketManager.js\<close>. Its two JavaScript maps
  are the primary index \<open>connections\<close> (sessionId to connection) and the secondary
  index \<open>userConnections\<close> (userId to a Set of sessionIds). A JavaScript Set keeps
  insertion order and holds no duplicates; it is a list here, \<open>size\<close> is the length,
  \<open>add\<close> appends when the element is absent and \<open>delete\<close> removes the element.

  An optional field (\<^verbatim>\<open>userId?: string\<close>, \<^verbatim>\<open>maxConnectionsPerUser?: number\<close>) is
  an \<open>option\<close>. The source tests both by truthiness, so the empty string and the
  number zero count as absent there.
\<close>

type_synonym session_id = string
type_synonym user_id = string

record metadata =
  isRecording :: "bool option"
  isPaused :: "bool option"
  audioFormat :: "string option"

record connection =
  ws :: nat
  sessionId :: session_id
  userId :: "user_id option"
  metadata :: "metadata option"
  isAlive :: bool
  lastActivity :: nat

record add_params =
  p_ws :: nat
  p_sessionId :: session_id
  p_userId :: "user_id option"
  p_metadata :: "metadata option"

record manager_options =
  pingInterval :: "int option"
  pongTimeout :: "int option"
  maxConnectionsPerUser :: "int option"

datatype manager_event =
  ConnectionAdded session_id "user_id option"
| ConnectionRemoved session_id "user_id option"

record registry =
  connections :: "session_id \<rightharpoonup> connection"
  userConnections :: "user_id \<rightharpoonup> session_id list"

definition empty_registry :: registry where
  "empty_registry = \<lparr>connections = Map.empty, userConnections = Map.empty\<rparr>"

text \<open>JavaScript truthiness of an optional string and of an optional number.\<close>

fun truthy_str :: "string option \<Rightarrow> bool" where
  "truthy_str None = False"
| "truthy_str (Some s) = (s \<noteq> [])"

fun truthy_num :: "int option \<Rightarrow> bool" where
  "truthy_num None = False"
| "truthy_num (Some n) = (n \<noteq> 0)"

definition set_add :: "'a \<Rightarrow> 'a list \<Rightarrow> 'a list" where
  "set_add x xs = (if x \<in> set xs then xs else xs @ [x])"

definition set_delete :: "'a \<Rightarrow> 'a list \<Rightarrow> 'a list" where
  "set_delete x xs = removeAll x xs"

text \<open>
  \<^verbatim>\<open>userSessions && userSessions.size >= this.options.maxConnectionsPerUser\<close>,
  reached only when the userId and the option are both truthy.
\<close>

definition cap_reached :: "manager_options \<Rightarrow> registry \<Rightarrow> user_id option \<Rightarrow> bool" where
  "cap_reached opts r uid =
     (case (uid, maxConnectionsPerUser opts) of
        (Some u, Some n) \<Rightarrow>
          (case userConnections r u of
             None \<Rightarrow> False
           | Some userSessions \<Rightarrow> int (length userSessions) \<ge> n)
      | _ \<Rightarrow> False)"

text \<open>
  \<open>addConnection\<close> returns the boolean of the source, the registry after the call and
  the events emitted. \<open>now\<close> is the value of \<^verbatim>\<open>Date.now()\<close>.
\<close>

definition addConnection ::
  "manager_options \<Rightarrow> nat \<Rightarrow> add_params \<Rightarrow> registry \<Rightarrow> bool \<times> registry \<times> manager_event list" where
  "addConnection opts now params r =
     (if truthy_str (p_userId params) \<and> truthy_num (maxConnectionsPerUser opts)
         \<and> cap_reached opts r (p_userId params)
      then (False, r, [])
      else
        let conn = \<lparr>ws = p_ws params, sessionId = p_sessionId params,
                    userId = p_userId params, metadata = p_metadata params,
                    isAlive = True, lastActivity = now\<rparr>;
            r1 = r\<lparr>connections := (connections r)(p_sessionId params \<mapsto> conn)\<rparr>;
            r2 = (case p_userId params of
                    None \<Rightarrow> r1
                  | Some u \<Rightarrow>
                      if u = [] then r1
                      else
                        let us = (case userConnections r1 u of None \<Rightarrow> [] | Some l \<Rightarrow> l)
                        in r1\<lparr>userConnections :=
                                (userConnections r1)(u \<mapsto> set_add (p_sessionId params) us)\<rparr>)
        in (True, r2, [ConnectionAdded (p_sessionId params) (p_userId params)]))"

definition removeConnection :: "session_id \<Rightarrow> registry \<Rightarrow> registry \<times> manager_event list" where
  "removeConnection sid r =
     (case connections r sid of
        None \<Rightarrow> (r, [])
      | Some conn \<Rightarrow>
          let r1 = r\<lparr>connections := (connections r)(sid := None)\<rparr>;
              r2 = (if truthy_str (userId conn) then
                      (case userId conn of
                         None \<Rightarrow> r1
                       | Some u \<Rightarrow>
                           (case userConnections r1 u of
                              None \<Rightarrow> r1
                            | Some userSessions \<Rightarrow>
                                let us' = set_delete sid userSessions in
                                if length us' = 0
                                then r1\<lparr>userConnections := (userConnections r1)(u := None)\<rparr>
                                else r1\<lparr>userConnections := (userConnections r1)(u \<mapsto> us')\<rparr>))
                    else r1)
          in (r2, [ConnectionRemoved sid (userId conn)]))"

definition getConnection :: "session_id \<Rightarrow> registry \<Rightarrow> connection option" where
  "getConnection sid r = connections r sid"

definition getConnectionsByUser :: "user_id \<Rightarrow> registry \<Rightarrow> connection list" where
  "getConnectionsByUser uid r =
     (case userConnections r uid of
        None \<Rightarrow> []
      | Some sessionIds \<Rightarrow> List.map_filter (connections r) sessionIds)"

text \<open>
  \<open>sendMessage\<close> reads the \<open>readyState\<close> of the connection's socket, which the
  socket keeps itself: the first argument gives it for each socket (sockets are
  numbered, and \<open>ws\<close> is the number of the connection's socket), and 1 is
  \<^verbatim>\<open>WebSocket.OPEN\<close>. The boolean returned is the one of the source: it tells
  whether \<^verbatim>\<open>connection.ws.send\<close> was called with the message. The \<^verbatim>\<open>catch\<close> branch,
  taken when \<^verbatim>\<open>JSON.stringify\<close> or \<^verbatim>\<open>ws.send\<close> throws, is left out.
\<close>

definition sendMessage :: "(nat \<Rightarrow> nat) \<Rightarrow> nat \<Rightarrow> session_id \<Rightarrow> registry \<Rightarrow> bool \<times> registry" where
  "sendMessage readyState now sid r =
     (case connections r sid of
        None \<Rightarrow> (False, r)
      | Some connection \<Rightarrow>
          if readyState (ws connection) \<noteq> 1 then (False, r)
          else (True, r\<lparr>connections := (connections r)(sid \<mapsto> connection\<lparr>lastActivity := now\<rparr>)\<rparr>))"


subsection \<open>Scenarios over the registry\<close>

text \<open>
  The sessions a user holds in the secondary index (none when the user has no entry),
  admission parameters and options with only the fields under study set, and sequences
  of registry calls.
\<close>

definition user_sessions :: "registry \<Rightarrow> user_id \<Rightarrow> session_id list" where
  "user_sessions r u = (case userConnections r u of None \<Rightarrow> [] | Some l \<Rightarrow> l)"

definition mk_params :: "session_id \<Rightarrow> user_id option \<Rightarrow> add_params" where
  "mk_params sid uid = \<lparr>p_ws = 0, p_sessionId = sid, p_userId = uid, p_metadata = None\<rparr>"

definition cap_options :: "int option \<Rightarrow> manager_options" where
  "cap_options n = \<lparr>pingInterval = None, pongTimeout = None, maxConnectionsPerUser = n\<rparr>"

fun admit_all :: "manager_options \<Rightarrow> nat \<Rightarrow> user_id \<Rightarrow> session_id list \<Rightarrow> registry \<Rightarrow> bool list \<times> registry" where
  "admit_all opts now u [] r = ([], r)"
| "admit_all opts now u (sid # sids) r =
     (case addConnection opts now (mk_params sid (Some u)) r of
        (ok, r', _) \<Rightarrow> (case admit_all opts now u sids r' of (oks, r'') \<Rightarrow> (ok # oks, r'')))"

datatype registry_op = Add add_params nat | Remove session_id

fun apply_op :: "manager_options \<Rightarrow> registry_op \<Rightarrow> registry \<Rightarrow> registry" where
  "apply_op opts (Add params now) r = fst (snd (addConnection opts now params r))"
| "apply_op opts (Remove sid) r = fst (removeConnection sid r)"

fun run_ops :: "manager_options \<Rightarrow> registry \<Rightarrow> registry_op list \<Rightarrow> registry" where
  "run_ops opts r [] = r"
| "run_ops opts r (x # xs) = run_ops opts (apply_op opts x r) xs"

fun unique_ids :: "manager_options \<Rightarrow> registry \<Rightarrow> registry_op list \<Rightarrow> bool" where
  "unique_ids opts r [] = True"
| "unique_ids opts r (Add params now # xs) =
     (connections r (p_sessionId params) = None \<and> unique_ids opts (apply_op opts (Add params now) r) xs)"
| "unique_ids opts r (Remove sid # xs) = unique_ids opts (apply_op opts (Remove sid) r) xs"

definition consistent :: "registry \<Rightarrow> bool" where
  "consistent r \<longleftrightarrow>
     (\<forall>u us. userConnections r u = Some us \<longrightarrow>
        us \<noteq> [] \<and> distinct us \<and> u \<noteq> [] \<and>
        (\<forall>sid \<in> set us. \<exists>c. connections r sid = Some c \<and> userId c = Some u)) \<and>
     (\<forall>sid c. connections r sid = Some c \<longrightarrow>
        sessionId c = sid \<and>
        (\<forall>u. userId c = Some u \<and> u \<noteq> [] \<longrightarrow> (\<exists>us. userConnections r u = Some us \<and> sid \<in> set us)))"


section \<open>Batch processor (LLMProcessor)\<close>

text \<open>
  The batching engine of \<^verbatim>\<open>src/server/LLMProcessor.ts\<close>. A Node \<open>Buffer\<close> is a
  list of bytes and \<^verbatim>\<open>Buffer.concat\<close> is \<open>concat\<close>. Time is explicit: each
  operation takes \<open>now\<close>, the value of \<^verbatim>\<open>Date.now()\<close> when it runs. A timer handle
  records when it was armed and with which delay. What an operation does to the outside
  (arming or clearing a timer, emitting an event, calling the registered handler) is
  returned as a list of effects in program order.
\<close>

type_synonym buffer = "8 word list"

text \<open>
  Modelled from the spec: the declarations of \<open>TranscriptionResult\<close> and \<open>AudioChunk\<close>
  (\<^verbatim>\<open>common/types\<close>) are not among the sources. The spec gives a result a transcript
  text that may be empty, an optional speaker label, an optional confidence score and
  a timestamp; the fields of a chunk are those \<open>handleAudioData\<close> fills in.
\<close>

record transcription_result =
  transcript :: string
  speaker :: "string option"
  confidence :: "int option"
  r_timestamp :: nat

record audio_chunk =
  c_data :: buffer
  c_timestamp :: nat
  c_mimeType :: string
  c_sessionId :: session_id

record llm_processor_options =
  o_batchTimeout :: "int option"
  o_maxBatchSize :: "int option"
  o_includeAudio :: "bool option"
  o_includeTranscript :: "bool option"

record llm_options =
  batchTimeout :: int
  maxBatchSize :: int
  includeAudio :: bool
  includeTranscript :: bool

record timer_handle =
  armed_at :: nat
  delay :: int

record batch =
  audio :: "buffer list"
  transcripts :: "transcription_result list"
  b_metadata :: "(string \<times> string) list"
  timer :: "timer_handle option"

record llm_request =
  q_sessionId :: session_id
  q_timestamp :: nat
  q_audio :: "buffer option"
  q_transcript :: "string option"
  q_transcriptionResults :: "transcription_result list option"
  q_metadata :: "(string \<times> string) list"

datatype llm_effect =
  SetTimeout session_id timer_handle
| ClearTimeout timer_handle
| EmitLLMRequest llm_request
| CallHandler llm_request

record llm_processor =
  options :: llm_options
  batchMap :: "session_id \<rightharpoonup> batch"
  llmHandler :: bool

text \<open>The constructor: each absent option takes its default (\<^verbatim>\<open>??\<close>).\<close>

definition new_llm_processor :: "llm_processor_options \<Rightarrow> llm_processor" where
  "new_llm_processor opts =
     \<lparr>options =
        \<lparr>batchTimeout = (case o_batchTimeout opts of None \<Rightarrow> 5000 | Some t \<Rightarrow> t),
         maxBatchSize = (case o_maxBatchSize opts of None \<Rightarrow> 10 | Some n \<Rightarrow> n),
         includeAudio = (case o_includeAudio opts of None \<Rightarrow> False | Some b \<Rightarrow> b),
         includeTranscript = (case o_includeTranscript opts of None \<Rightarrow> True | Some b \<Rightarrow> b)\<rparr>,
      batchMap = Map.empty,
      llmHandler = False\<rparr>"

definition setLLMHandler :: "llm_processor \<Rightarrow> llm_processor" where
  "setLLMHandler st = st\<lparr>llmHandler := True\<rparr>"

text \<open>\<^verbatim>\<open>Array.prototype.join\<close>: the separator goes between consecutive elements.\<close>

fun join :: "string \<Rightarrow> string list \<Rightarrow> string" where
  "join sep [] = []"
| "join sep [x] = x"
| "join sep (x # y # ys) = x @ sep @ join sep (y # ys)"

text \<open>
  \<open>processBatch\<close> up to the call of the handler: the handler's answer arrives later and
  only adds an \<open>llm-response\<close> or \<open>llm-error\<close> event.
\<close>

definition build_request :: "nat \<Rightarrow> session_id \<Rightarrow> batch \<Rightarrow> llm_request" where
  "build_request now sid b =
     (let request = \<lparr>q_sessionId = sid, q_timestamp = now, q_audio = None, q_transcript = None,
                      q_transcriptionResults = None, q_metadata = b_metadata b\<rparr>;
          request = (if length (audio b) > 0
                     then request\<lparr>q_audio := Some (concat (audio b))\<rparr> else request);
          request = (if length (transcripts b) > 0
                     then request\<lparr>q_transcript :=
                                     Some (join '' '' (filter (\<lambda>t. t \<noteq> []) (map transcript (transcripts b)))),
                                   q_transcriptionResults := Some (transcripts b)\<rparr>
                     else request)
      in request)"

definition processBatch :: "nat \<Rightarrow> session_id \<Rightarrow> llm_processor \<Rightarrow> llm_processor \<times> llm_effect list" where
  "processBatch now sid st =
     (case batchMap st sid of
        None \<Rightarrow> (st, [])
      | Some b \<Rightarrow>
          let clear = (case timer b of None \<Rightarrow> [] | Some t \<Rightarrow> [ClearTimeout t]);
              st1 = st\<lparr>batchMap := (batchMap st)(sid := None)\<rparr>
          in if length (audio b) = 0 \<and> length (transcripts b) = 0 then (st1, clear)
             else
               let request = build_request now sid b
               in (st1, clear @ [EmitLLMRequest request]
                          @ (if llmHandler st then [CallHandler request] else [])))"

definition getOrCreateBatch :: "nat \<Rightarrow> session_id \<Rightarrow> llm_processor \<Rightarrow> llm_processor \<times> llm_effect list" where
  "getOrCreateBatch now sid st =
     (case batchMap st sid of
        None \<Rightarrow>
          let t = \<lparr>armed_at = now, delay = batchTimeout (options st)\<rparr>
          in (st\<lparr>batchMap := (batchMap st)(sid \<mapsto>
                   \<lparr>audio = [], transcripts = [], b_metadata = [], timer = Some t\<rparr>)\<rparr>,
              [SetTimeout sid t])
      | Some b \<Rightarrow> (st, []))"

definition checkBatchSize :: "nat \<Rightarrow> session_id \<Rightarrow> llm_processor \<Rightarrow> llm_processor \<times> llm_effect list" where
  "checkBatchSize now sid st =
     (case batchMap st sid of
        None \<Rightarrow> (st, [])
      | Some b \<Rightarrow>
          let totalItems = length (audio b) + length (transcripts b)
          in if int totalItems \<ge> maxBatchSize (options st) then processBatch now sid st
             else (st, []))"

text \<open>
  \<^verbatim>\<open>batch.audio.push(...)\<close> and \<^verbatim>\<open>batch.transcripts.push(...)\<close> change the batch
  object that the map holds.
\<close>

definition push_audio :: "session_id \<Rightarrow> buffer \<Rightarrow> llm_processor \<Rightarrow> llm_processor" where
  "push_audio sid d st =
     (case batchMap st sid of
        None \<Rightarrow> st
      | Some b \<Rightarrow> st\<lparr>batchMap := (batchMap st)(sid \<mapsto> b\<lparr>audio := audio b @ [d]\<rparr>)\<rparr>)"

definition push_transcript :: "session_id \<Rightarrow> transcription_result \<Rightarrow> llm_processor \<Rightarrow> llm_processor" where
  "push_transcript sid res st =
     (case batchMap st sid of
        None \<Rightarrow> st
      | Some b \<Rightarrow> st\<lparr>batchMap := (batchMap st)(sid \<mapsto> b\<lparr>transcripts := transcripts b @ [res]\<rparr>)\<rparr>)"

definition processAudioChunk :: "nat \<Rightarrow> audio_chunk \<Rightarrow> llm_processor \<Rightarrow> llm_processor \<times> llm_effect list" where
  "processAudioChunk now chunk st =
     (if \<not> includeAudio (options st) then (st, [])
      else
        let (st1, e1) = getOrCreateBatch now (c_sessionId chunk) st;
            st2 = push_audio (c_sessionId chunk) (c_data chunk) st1;
            (st3, e3) = checkBatchSize now (c_sessionId chunk) st2
        in (st3, e1 @ e3))"

definition processTranscription ::
  "nat \<Rightarrow> session_id \<Rightarrow> transcription_result \<Rightarrow> llm_processor \<Rightarrow> llm_processor \<times> llm_effect list" where
  "processTranscription now sid res st =
     (if \<not> includeTranscript (options st) then (st, [])
      else
        let (st1, e1) = getOrCreateBatch now sid st;
            st2 = push_transcript sid res st1;
            (st3, e3) = checkBatchSize now sid st2
        in (st3, e1 @ e3))"

definition flushSession :: "nat \<Rightarrow> session_id \<Rightarrow> llm_processor \<Rightarrow> llm_processor \<times> llm_effect list" where
  "flushSession now sid st = processBatch now sid st"

text \<open>The callback of the flush timer of a session's batch.\<close>

definition timer_fired :: "nat \<Rightarrow> session_id \<Rightarrow> llm_processor \<Rightarrow> llm_processor \<times> llm_effect list" where
  "timer_fired now sid st = processBatch now sid st"

subsection \<open>Scenarios over the batch processor\<close>

text \<open>
  An append is one call of \<open>processAudioChunk\<close> or \<open>processTranscription\<close> for a
  session, at a given time. \<open>appends\<close> runs a list of them in order and collects the
  effects.
\<close>

datatype batch_item = AudioItem buffer | TranscriptItem transcription_result

fun append_item :: "session_id \<Rightarrow> nat \<times> batch_item \<Rightarrow> llm_processor \<Rightarrow> llm_processor \<times> llm_effect list" where
  "append_item sid (now, AudioItem d) st =
     processAudioChunk now \<lparr>c_data = d, c_timestamp = now, c_mimeType = ''audio/webm'', c_sessionId = sid\<rparr> st"
| "append_item sid (now, TranscriptItem res) st = processTranscription now sid res st"

fun appends :: "session_id \<Rightarrow> (nat \<times> batch_item) list \<Rightarrow> llm_processor \<Rightarrow> llm_processor \<times> llm_effect list" where
  "appends sid [] st = (st, [])"
| "appends sid (x # xs) st =
     (case append_item sid x st of
        (st1, e1) \<Rightarrow> (case appends sid xs st1 of (st2, e2) \<Rightarrow> (st2, e1 @ e2)))"

fun item_audio :: "batch_item \<Rightarrow> buffer list" where
  "item_audio (AudioItem d) = [d]"
| "item_audio (TranscriptItem res) = []"

fun item_transcripts :: "batch_item \<Rightarrow> transcription_result list" where
  "item_transcripts (AudioItem d) = []"
| "item_transcripts (TranscriptItem res) = [res]"

text \<open>
  An append takes place only for a kind of item that the options include:
  \<open>processAudioChunk\<close> returns at once without \<open>includeAudio\<close>, and
  \<open>processTranscription\<close> without \<open>includeTranscript\<close>.
\<close>

fun included :: "llm_options \<Rightarrow> batch_item \<Rightarrow> bool" where
  "included opts (AudioItem d) = includeAudio opts"
| "included opts (TranscriptItem res) = includeTranscript opts"

fun items_audio :: "(nat \<times> batch_item) list \<Rightarrow> buffer list" where
  "items_audio [] = []"
| "items_audio ((now, it) # xs) = item_audio it @ items_audio xs"

fun items_transcripts :: "(nat \<times> batch_item) list \<Rightarrow> transcription_result list" where
  "items_transcripts [] = []"
| "items_transcripts ((now, it) # xs) = item_transcripts it @ items_transcripts xs"




fun requests :: "llm_effect list \<Rightarrow> llm_request list" where
  "requests [] = []"
| "requests (EmitLLMRequest q # es) = q # requests es"
| "requests (e # es) = requests es"

definition mk_result :: "string \<Rightarrow> transcription_result" where
  "mk_result txt = \<lparr>transcript = txt, speaker = None, confidence = None, r_timestamp = 0\<rparr>"


definition both_options :: "int option \<Rightarrow> llm_processor_options" where
  "both_options n = \<lparr>o_batchTimeout = None, o_maxBatchSize = n,
                      o_includeAudio = Some True, o_includeTranscript = Some True\<rparr>"


section \<open>Session orchestrator (AudioStreamServer)\<close>

text \<open>
  The server of \<^verbatim>\<open>src/server/AudioStreamServer.ts\<close>. JavaScript runs one turn of the
  event loop at a time: an inbound message, a socket close, or the settling of the
  promise of a \<open>processAudio\<close> call starts a turn, and the turn runs every continuation
  that becomes ready, in the order in which the awaits were registered, before the next
  turn starts. A turn is a total function from the state to the new state and the
  effects of the turn in program order; the asynchronous functions of the source are
  split at their \<^verbatim>\<open>await\<close>s, and what is suspended at an await is part of the state:

  \<^item> \<open>calls\<close>: the \<open>processAudio\<close> calls that have started and not completed. Each
    came from a run of \<open>processAudioBuffer\<close> that is suspended at
    \<^verbatim>\<open>await this.transcriptionProvider.processAudio(...)\<close>; \<open>origin\<close> tells who awaits
    that run: \<open>handleAudioData\<close>, which will then delete the entry of the processing
    queue, or \<open>processBufferedAudio\<close>, after which \<open>handleControlMessage\<close> will send
    the acknowledgement of stop-recording.
  \<^item> \<open>waiting\<close>: the runs of \<open>processBufferedAudio\<close> that are suspended at
    \<^verbatim>\<open>await ongoingProcessing\<close>, with the promise they wait for, in the order in
    which they started waiting.

  The promise that \<open>handleAudioData\<close> stores in \<open>processingQueue\<close> is the one of the
  run of \<open>processAudioBuffer\<close> that it started, so it is named by the id of that run's
  call.

  The effect \<open>SendMessage sid msg\<close> is a call of \<^verbatim>\<open>ws.send\<close> on the socket of the
  connection that is registered for \<open>sid\<close>: \<^verbatim>\<open>wsManager.sendMessage\<close> makes it only
  when there is such a connection and its socket is open. The \<open>readyState\<close> of each
  socket is kept in \<open>sockets\<close>; it belongs to the socket and changes by itself, which
  is the event \<open>ReadyState\<close>. A socket is open (1) when the WebSocket server hands it
  over.
\<close>

datatype message =
  Pong
| RecordingStarted nat
| RecordingStopped nat
| RecordingPaused nat
| RecordingResumed nat
| TranscriptionMessage transcription_result

datatype server_event =
  ConnectionEvent session_id "user_id option"
| AudioChunkEvent audio_chunk
| TranscriptionEvent session_id transcription_result
| ErrorEvent session_id string
| DisconnectionEvent session_id "user_id option" string
| LLMRequestEvent llm_request

datatype effect =
  SendMessage session_id message
| Emit server_event
| ProcessAudio nat session_id buffer "metadata option"
| CloseSocket nat int string
| Manager manager_event
| Batch llm_effect

datatype origin = FromAudioData | FromBufferedAudio

record pending_call =
  call_id :: nat
  call_session :: session_id
  payload :: buffer
  call_metadata :: "metadata option"
  origin :: origin

record server_options =
  s_pingInterval :: "int option"
  s_pongTimeout :: "int option"
  s_maxConnectionsPerUser :: "int option"
  enableLLMProcessing :: bool

record server =
  managerOptions :: manager_options
  wsManager :: registry
  llmProcessor :: "llm_processor option"
  sessionBuffers :: "session_id \<rightharpoonup> buffer list"
  processingQueue :: "session_id \<rightharpoonup> nat"
  calls :: "pending_call list"
  waiting :: "(nat \<times> session_id) list"
  next_call :: nat
  sockets :: "nat \<Rightarrow> nat"

definition new_server :: "server_options \<Rightarrow> server" where
  "new_server opts =
     \<lparr>managerOptions = \<lparr>pingInterval = s_pingInterval opts, pongTimeout = s_pongTimeout opts,
                         maxConnectionsPerUser = s_maxConnectionsPerUser opts\<rparr>,
      wsManager = empty_registry,
      llmProcessor =
        (if enableLLMProcessing opts
         then Some (new_llm_processor
                \<lparr>o_batchTimeout = None, o_maxBatchSize = None,
                 o_includeAudio = Some True, o_includeTranscript = Some True\<rparr>)
         else None),
      sessionBuffers = Map.empty,
      processingQueue = Map.empty,
      calls = [],
      waiting = [],
      next_call = 0,
      sockets = (\<lambda>w. 1)\<rparr>"

text \<open>
  The listener that the constructor puts on the processor's \<open>llm-request\<close> event emits
  the request again as an event of the server.
\<close>

fun forward :: "llm_effect \<Rightarrow> effect list" where
  "forward (EmitLLMRequest q) = [Batch (EmitLLMRequest q), Emit (LLMRequestEvent q)]"
| "forward e = [Batch e]"

definition with_llm ::
  "(llm_processor \<Rightarrow> llm_processor \<times> llm_effect list) \<Rightarrow> server \<Rightarrow> server \<times> effect list" where
  "with_llm f st =
     (case llmProcessor st of
        None \<Rightarrow> (st, [])
      | Some p \<Rightarrow> (case f p of (p', es) \<Rightarrow> (st\<lparr>llmProcessor := Some p'\<rparr>, concat (map forward es))))"

text \<open>\<^verbatim>\<open>{ ...connection.metadata, flag: value }\<close> on a metadata that may be undefined.\<close>

fun spread :: "metadata option \<Rightarrow> metadata" where
  "spread None = \<lparr>isRecording = None, isPaused = None, audioFormat = None\<rparr>"
| "spread (Some m) = m"

definition set_metadata :: "session_id \<Rightarrow> connection \<Rightarrow> metadata \<Rightarrow> server \<Rightarrow> server" where
  "set_metadata sid conn m st =
     st\<lparr>wsManager := (wsManager st)\<lparr>connections :=
           (connections (wsManager st))(sid \<mapsto> conn\<lparr>metadata := Some m\<rparr>)\<rparr>\<rparr>"

text \<open>
  \<^verbatim>\<open>this.wsManager.sendMessage(sessionId, message)\<close>, whose result the server
  ignores.
\<close>

definition send :: "nat \<Rightarrow> session_id \<Rightarrow> message \<Rightarrow> server \<Rightarrow> server \<times> effect list" where
  "send now sid msg st =
     (case sendMessage (sockets st) now sid (wsManager st) of
        (sent, r) \<Rightarrow> (st\<lparr>wsManager := r\<rparr>, if sent then [SendMessage sid msg] else []))"

text \<open>\<^verbatim>\<open>connection.metadata?.isPaused\<close> as a condition.\<close>

definition paused :: "connection \<Rightarrow> bool" where
  "paused conn = (case metadata conn of None \<Rightarrow> False | Some m \<Rightarrow> isPaused m = Some True)"

subsection \<open>Dispatch: the part of \<open>processAudioBuffer\<close> before its await\<close>

text \<open>
  Returns the id of the call it started, or \<open>None\<close> when it returned early. The splice
  empties the session's buffer; the payload is the concatenation of what it held.
\<close>

definition processAudioBuffer ::
  "session_id \<Rightarrow> origin \<Rightarrow> server \<Rightarrow> server \<times> effect list \<times> nat option" where
  "processAudioBuffer sid org st =
     (case sessionBuffers st sid of
        None \<Rightarrow> (st, [], None)
      | Some buffer \<Rightarrow>
          if length buffer = 0 then (st, [], None)
          else
            (case getConnection sid (wsManager st) of
               None \<Rightarrow> (st, [], None)
             | Some conn \<Rightarrow>
                 let audioChunks = buffer;
                     combinedAudio = concat audioChunks;
                     c = \<lparr>call_id = next_call st, call_session = sid, payload = combinedAudio,
                          call_metadata = metadata conn, origin = org\<rparr>
                 in (st\<lparr>sessionBuffers := (sessionBuffers st)(sid \<mapsto> []),
                        calls := calls st @ [c],
                        next_call := next_call st + 1\<rparr>,
                     [ProcessAudio (next_call st) sid combinedAudio (metadata conn)],
                     Some (next_call st))))"

subsection \<open>Completion: the part of \<open>processAudioBuffer\<close> after its await\<close>

datatype outcome = Resolved transcription_result | Rejected string

definition processAudioBuffer_resumed ::
  "nat \<Rightarrow> pending_call \<Rightarrow> outcome \<Rightarrow> server \<Rightarrow> server \<times> effect list" where
  "processAudioBuffer_resumed now c out st =
     (case out of
        Resolved result \<Rightarrow>
          if transcript result \<noteq> [] then
            let (st1, e1) = send now (call_session c) (TranscriptionMessage result) st;
                (st2, e2) = with_llm (processTranscription now (call_session c) result) st1
            in (st2, e1 @ [Emit (TranscriptionEvent (call_session c) result)] @ e2)
          else (st, [])
      | Rejected err \<Rightarrow> (st, [Emit (ErrorEvent (call_session c) err)]))"

subsection \<open>The drain of stop-recording\<close>

text \<open>
  \<open>drain\<close> is \<open>processBufferedAudio\<close> from its second await on: it dispatches what is
  buffered, outside the processing queue. When nothing is dispatched the function
  returns in the same turn and \<open>handleControlMessage\<close> acknowledges; the boolean tells
  so. The acknowledgement itself is sent after every continuation of the turn has run
  its synchronous part, see \<open>resume_waiting\<close> and \<open>acknowledge\<close>.
\<close>

definition drain :: "session_id \<Rightarrow> server \<Rightarrow> server \<times> effect list \<times> bool" where
  "drain sid st =
     (case processAudioBuffer sid FromBufferedAudio st of
        (st1, e1, None) \<Rightarrow> (st1, e1, True)
      | (st1, e1, Some i) \<Rightarrow> (st1, e1, False))"

definition processBufferedAudio :: "session_id \<Rightarrow> server \<Rightarrow> server \<times> effect list \<times> bool" where
  "processBufferedAudio sid st =
     (case processingQueue st sid of
        Some ongoingProcessing \<Rightarrow> (st\<lparr>waiting := waiting st @ [(ongoingProcessing, sid)]\<rparr>, [], False)
      | None \<Rightarrow> drain sid st)"

text \<open>
  The runs of \<open>processBufferedAudio\<close> that wait for promise \<open>i\<close> resume in the order in
  which they started waiting. Each runs \<open>drain\<close>. Those that dispatched nothing return,
  and their callers \<open>handleControlMessage\<close> acknowledge after all of them have run, in
  the same order: \<open>resume_waiting\<close> returns the sessions to acknowledge, and
  \<open>acknowledge\<close> sends the acknowledgements.
\<close>

fun resume_waiting ::
  "nat \<Rightarrow> (nat \<times> session_id) list \<Rightarrow> server \<Rightarrow> server \<times> effect list \<times> session_id list" where
  "resume_waiting i [] st = (st, [], [])"
| "resume_waiting i ((j, sid) # rest) st =
     (if j = i then
        (case drain sid st of
           (st1, e1, finished) \<Rightarrow>
             (case resume_waiting i rest st1 of
                (st2, e2, acks) \<Rightarrow>
                  (st2, e1 @ e2, (if finished then [sid] else []) @ acks)))
      else resume_waiting i rest st)"

fun acknowledge :: "nat \<Rightarrow> session_id list \<Rightarrow> server \<Rightarrow> server \<times> effect list" where
  "acknowledge now [] st = (st, [])"
| "acknowledge now (sid # sids) st =
     (case send now sid (RecordingStopped now) st of
        (st1, e1) \<Rightarrow> (case acknowledge now sids st1 of (st2, e2) \<Rightarrow> (st2, e1 @ e2)))"

subsection \<open>Inbound messages\<close>

datatype control = Ping | StartRecording | StopRecording | PauseRecording | ResumeRecording | Unknown

definition handleControlMessage :: "nat \<Rightarrow> session_id \<Rightarrow> control \<Rightarrow> server \<Rightarrow> server \<times> effect list" where
  "handleControlMessage now sid msg st =
     (case getConnection sid (wsManager st) of
        None \<Rightarrow> (st, [])
      | Some conn \<Rightarrow>
          (case msg of
             Ping \<Rightarrow> send now sid Pong st
           | StartRecording \<Rightarrow>
               send now sid (RecordingStarted now)
                 (set_metadata sid conn ((spread (metadata conn))\<lparr>isRecording := Some True\<rparr>) st)
           | StopRecording \<Rightarrow>
               (case processBufferedAudio sid
                       (set_metadata sid conn ((spread (metadata conn))\<lparr>isRecording := Some False\<rparr>) st) of
                  (st1, e1, finished) \<Rightarrow>
                    if finished then
                      (case send now sid (RecordingStopped now) st1 of (st2, e2) \<Rightarrow> (st2, e1 @ e2))
                    else (st1, e1))
           | PauseRecording \<Rightarrow>
               send now sid (RecordingPaused now)
                 (set_metadata sid conn ((spread (metadata conn))\<lparr>isPaused := Some True\<rparr>) st)
           | ResumeRecording \<Rightarrow>
               send now sid (RecordingResumed now)
                 (set_metadata sid conn ((spread (metadata conn))\<lparr>isPaused := Some False\<rparr>) st)
           | Unknown \<Rightarrow> (st, [])))"

text \<open>
  The chunk that \<open>handleAudioData\<close> builds from a frame:
  \<^verbatim>\<open>format: connection.metadata?.audioFormat || { mimeType: 'audio/webm' }\<close>.
\<close>

definition chunk_of :: "nat \<Rightarrow> session_id \<Rightarrow> buffer \<Rightarrow> connection \<Rightarrow> audio_chunk" where
  "chunk_of now s d conn =
     \<lparr>c_data = d, c_timestamp = now,
      c_mimeType = (case metadata conn of None \<Rightarrow> ''audio/webm''
                    | Some m \<Rightarrow> (case audioFormat m of None \<Rightarrow> ''audio/webm'' | Some f \<Rightarrow> f)),
      c_sessionId = s\<rparr>"

text \<open>
  \<open>handleAudioData\<close> up to its await. When the queue has no entry for the session it
  starts \<open>processAudioBuffer\<close> and stores its promise. Had that run returned early, the
  promise would be resolved already and the \<^verbatim>\<open>finally\<close> would delete the entry within
  the turn.
\<close>

definition handleAudioData :: "nat \<Rightarrow> session_id \<Rightarrow> buffer \<Rightarrow> server \<Rightarrow> server \<times> effect list" where
  "handleAudioData now sid audioData st =
     (case getConnection sid (wsManager st) of
        None \<Rightarrow> (st, [])
      | Some conn \<Rightarrow>
          if paused conn then (st, [])
          else
            (case sessionBuffers st sid of
               None \<Rightarrow> (st, [])
             | Some buffer \<Rightarrow>
                 let st1 = st\<lparr>sessionBuffers := (sessionBuffers st)(sid \<mapsto> buffer @ [audioData])\<rparr>;
                     chunk = chunk_of now sid audioData conn;
                     (st2, e2) = with_llm (processAudioChunk now chunk) st1
                 in if processingQueue st2 sid = None then
                      (case processAudioBuffer sid FromAudioData st2 of
                         (st3, e3, Some i) \<Rightarrow>
                           (st3\<lparr>processingQueue := (processingQueue st3)(sid \<mapsto> i)\<rparr>,
                            [Emit (AudioChunkEvent chunk)] @ e2 @ e3)
                       | (st3, e3, None) \<Rightarrow>
                           (st3\<lparr>processingQueue := (processingQueue st3)(sid := None)\<rparr>,
                            [Emit (AudioChunkEvent chunk)] @ e2 @ e3))
                    else (st2, [Emit (AudioChunkEvent chunk)] @ e2)))"

subsection \<open>Connections\<close>

definition handleConnection :: "nat \<Rightarrow> add_params \<Rightarrow> server \<Rightarrow> server \<times> effect list" where
  "handleConnection now params st =
     (case addConnection (managerOptions st) now params (wsManager st) of
        (added, r, es) \<Rightarrow>
          if \<not> added then (st, [CloseSocket (p_ws params) 1008 ''Max connections exceeded''])
          else
            (st\<lparr>wsManager := r,
                sessionBuffers := (sessionBuffers st)(p_sessionId params \<mapsto> [])\<rparr>,
             map Manager es @ [Emit (ConnectionEvent (p_sessionId params) (p_userId params))]))"

definition handleDisconnection :: "nat \<Rightarrow> session_id \<Rightarrow> string \<Rightarrow> server \<Rightarrow> server \<times> effect list" where
  "handleDisconnection now sid reason st =
     (case getConnection sid (wsManager st) of
        None \<Rightarrow> (st, [])
      | Some conn \<Rightarrow>
          let (st1, e1) = with_llm (flushSession now sid) st;
              st2 = st1\<lparr>sessionBuffers := (sessionBuffers st1)(sid := None),
                        processingQueue := (processingQueue st1)(sid := None)\<rparr>;
              (r, e3) = removeConnection sid (wsManager st2)
          in (st2\<lparr>wsManager := r\<rparr>,
              e1 @ map Manager e3 @ [Emit (DisconnectionEvent sid (userId conn) reason)]))"

text \<open>
  The socket's \<open>close\<close> event has two listeners: the one \<open>addConnection\<close> registered,
  which calls \<open>removeConnection\<close>, and then the one \<open>handleConnection\<close> registered, which
  calls \<open>handleDisconnection\<close>.
\<close>

definition socket_closed :: "nat \<Rightarrow> session_id \<Rightarrow> string \<Rightarrow> server \<Rightarrow> server \<times> effect list" where
  "socket_closed now sid reason st =
     (case removeConnection sid (wsManager st) of
        (r, e1) \<Rightarrow>
          (case handleDisconnection now sid reason (st\<lparr>wsManager := r\<rparr>) of
             (st2, e2) \<Rightarrow> (st2, map Manager e1 @ e2)))"

subsection \<open>A call completes\<close>

text \<open>
  The promise of call \<open>i\<close> settles. \<open>processAudioBuffer\<close> resumes and finishes. If
  \<open>handleAudioData\<close> awaited it, its \<^verbatim>\<open>finally\<close> deletes the session's entry of the
  processing queue, then the runs of \<open>processBufferedAudio\<close> that waited for the same
  promise resume, and then those of them that are finished are acknowledged. If
  \<open>processBufferedAudio\<close> awaited it, \<open>handleControlMessage\<close> acknowledges the stop.
\<close>

fun find_call :: "nat \<Rightarrow> pending_call list \<Rightarrow> pending_call option" where
  "find_call i [] = None"
| "find_call i (c # cs) = (if call_id c = i then Some c else find_call i cs)"

definition call_completed :: "nat \<Rightarrow> nat \<Rightarrow> outcome \<Rightarrow> server \<Rightarrow> server \<times> effect list" where
  "call_completed now i out st =
     (case find_call i (calls st) of
        None \<Rightarrow> (st, [])
      | Some c \<Rightarrow>
          let st0 = st\<lparr>calls := filter (\<lambda>c'. call_id c' \<noteq> i) (calls st)\<rparr>;
              (st1, e1) = processAudioBuffer_resumed now c out st0
          in (case origin c of
                FromAudioData \<Rightarrow>
                  let st2 = st1\<lparr>processingQueue := (processingQueue st1)(call_session c := None),
                                waiting := filter (\<lambda>w. fst w \<noteq> i) (waiting st1)\<rparr>
                  in (case resume_waiting i (waiting st1) st2 of
                        (st3, e3, acks) \<Rightarrow>
                          (case acknowledge now acks st3 of (st4, e4) \<Rightarrow> (st4, e1 @ e3 @ e4)))
              | FromBufferedAudio \<Rightarrow>
                  (case send now (call_session c) (RecordingStopped now) st1 of
                     (st2, e2) \<Rightarrow> (st2, e1 @ e2))))"

subsection \<open>Turns and runs\<close>

datatype event =
  Connect add_params
| Frame session_id buffer
| Control session_id control
| Completes nat outcome
| Closed session_id string
| BatchTimer session_id
| ReadyState nat nat

fun turn :: "nat \<times> event \<Rightarrow> server \<Rightarrow> server \<times> effect list" where
  "turn (now, Connect params) st = handleConnection now params st"
| "turn (now, Frame sid d) st = handleAudioData now sid d st"
| "turn (now, Control sid msg) st = handleControlMessage now sid msg st"
| "turn (now, Completes i out) st = call_completed now i out st"
| "turn (now, Closed sid reason) st = socket_closed now sid reason st"
| "turn (now, BatchTimer sid) st = with_llm (timer_fired now sid) st"
| "turn (now, ReadyState w v) st = (st\<lparr>sockets := (sockets st)(w := v)\<rparr>, [])"

fun run :: "(nat \<times> event) list \<Rightarrow> server \<Rightarrow> server \<times> effect list list" where
  "run [] st = (st, [])"
| "run (x # xs) st =
     (case turn x st of (st1, e1) \<Rightarrow> (case run xs st1 of (st2, es) \<Rightarrow> (st2, e1 # es)))"

definition final :: "(nat \<times> event) list \<Rightarrow> server \<Rightarrow> server" where
  "final xs st = fst (run xs st)"

text \<open>What a session has outstanding and buffered.\<close>

definition outstanding :: "server \<Rightarrow> session_id \<Rightarrow> pending_call list" where
  "outstanding st sid = filter (\<lambda>c. call_session c = sid) (calls st)"

definition buffered :: "server \<Rightarrow> session_id \<Rightarrow> buffer list" where
  "buffered st sid = (case sessionBuffers st sid of None \<Rightarrow> [] | Some b \<Rightarrow> b)"

definition plain_options :: server_options where
  "plain_options = \<lparr>s_pingInterval = None, s_pongTimeout = None,
                    s_maxConnectionsPerUser = None, enableLLMProcessing = False\<rparr>"


subsection \<open>What a turn means for one session\<close>

text \<open>
  Call ids are given out in increasing order, so the ids of the outstanding calls are
  below \<open>next_call\<close> and pairwise different.
\<close>

definition fresh_ids :: "server \<Rightarrow> bool" where
  "fresh_ids st \<longleftrightarrow>
     (\<forall>c \<in> set (calls st). call_id c < next_call st) \<and> distinct (map call_id (calls st))"

definition waiters :: "server \<Rightarrow> session_id \<Rightarrow> (nat \<times> session_id) list" where
  "waiters st sid = filter (\<lambda>w. snd w = sid) (waiting st)"

text \<open>
  A session is \<open>quiet\<close> when no stop-recording of it is in progress and its part of the
  processing queue tells the truth: without an entry nothing is outstanding, with an
  entry exactly the call of that entry is, started by \<open>handleAudioData\<close>.
\<close>

definition quiet :: "server \<Rightarrow> session_id \<Rightarrow> bool" where
  "quiet st sid \<longleftrightarrow>
     waiters st sid = [] \<and>
     (case processingQueue st sid of
        None \<Rightarrow> outstanding st sid = []
      | Some i \<Rightarrow> map (\<lambda>c. (call_id c, origin c)) (outstanding st sid) = [(i, FromAudioData)])"

text \<open>
  \<open>same_session\<close>: two states agree on everything that belongs to the session, but
  for the time of the last activity of its connection, which every message sent to it
  renews.
\<close>

definition same_connection :: "connection option \<Rightarrow> connection option \<Rightarrow> bool" where
  "same_connection a b \<longleftrightarrow>
     map_option (\<lambda>c. c\<lparr>lastActivity := 0\<rparr>) a = map_option (\<lambda>c. c\<lparr>lastActivity := 0\<rparr>) b"

definition same_session :: "session_id \<Rightarrow> server \<Rightarrow> server \<Rightarrow> bool" where
  "same_session sid st st' \<longleftrightarrow>
     same_connection (connections (wsManager st') sid) (connections (wsManager st) sid) \<and>
     sessionBuffers st' sid = sessionBuffers st sid \<and>
     processingQueue st' sid = processingQueue st sid \<and>
     outstanding st' sid = outstanding st sid \<and>
     waiters st' sid = waiters st sid"

text \<open>An event that is not a message of the session, nor its connection or its close.\<close>

fun undisturbed :: "session_id \<Rightarrow> event \<Rightarrow> bool" where
  "undisturbed sid (Connect params) = (p_sessionId params \<noteq> sid)"
| "undisturbed sid (Frame s d) = (s \<noteq> sid)"
| "undisturbed sid (Control s msg) = (s \<noteq> sid)"
| "undisturbed sid (Completes i out) = True"
| "undisturbed sid (Closed s reason) = (s \<noteq> sid)"
| "undisturbed sid (BatchTimer s) = True"
| "undisturbed sid (ReadyState w v) = True"

fun is_dispatch :: "session_id \<Rightarrow> effect \<Rightarrow> bool" where
  "is_dispatch sid (ProcessAudio i s d m) = (s = sid)"
| "is_dispatch sid e = False"

text \<open>
  The effects that surface a transcription result: the message to the client, the
  \<open>transcription\<close> event, and whatever the batch processor does with the result.
\<close>

fun is_result_effect :: "effect \<Rightarrow> bool" where
  "is_result_effect (SendMessage s (TranscriptionMessage r)) = True"
| "is_result_effect (Emit (TranscriptionEvent s r)) = True"
| "is_result_effect (Emit (LLMRequestEvent q)) = True"
| "is_result_effect (Batch e) = True"
| "is_result_effect e = False"


definition open_connection :: "server \<Rightarrow> session_id \<Rightarrow> bool" where
  "open_connection st sid =
     (case connections (wsManager st) sid of None \<Rightarrow> False | Some conn \<Rightarrow> sockets st (ws conn) = 1)"

subsection \<open>Scenarios over the server\<close>

text \<open>
  \<open>drain_race\<close>: a session sends two frames, the second while the call for the first is
  outstanding, then stop-recording; the call completes, and a third frame arrives while
  the final dispatch of the drain is outstanding.
\<close>

definition drain_race :: "(nat \<times> event) list" where
  "drain_race =
     [(0, Connect (mk_params ''s1'' (Some ''u1''))),
      (10, Frame ''s1'' [1]),
      (20, Frame ''s1'' [2]),
      (30, Control ''s1'' StopRecording),
      (60, Completes 0 (Resolved (mk_result ''a''))),
      (70, Frame ''s1'' [3])]"

text \<open>
  While a call that \<open>handleAudioData\<close> started is outstanding (\<open>guarded\<close>), the frames
  of the session that are buffered are those that arrive while it is not paused:
  \<open>accepted\<close> lists them for a run of events, from the pause flag at its start.
  \<open>during_call\<close> describes the events of such a run: anything but the completion of
  the call, a stop-recording of the session, and the connection or close of the session.
\<close>

definition is_paused :: "server \<Rightarrow> session_id \<Rightarrow> bool" where
  "is_paused st sid = (case connections (wsManager st) sid of None \<Rightarrow> False | Some conn \<Rightarrow> paused conn)"

definition guarded :: "server \<Rightarrow> session_id \<Rightarrow> nat \<Rightarrow> bool" where
  "guarded st sid i \<longleftrightarrow>
     quiet st sid \<and> processingQueue st sid = Some i \<and>
     connections (wsManager st) sid \<noteq> None \<and> sessionBuffers st sid \<noteq> None"

fun pause_after :: "session_id \<Rightarrow> bool \<Rightarrow> event \<Rightarrow> bool" where
  "pause_after sid p (Control s PauseRecording) = (if s = sid then True else p)"
| "pause_after sid p (Control s ResumeRecording) = (if s = sid then False else p)"
| "pause_after sid p e = p"

fun frame_accepted :: "session_id \<Rightarrow> bool \<Rightarrow> event \<Rightarrow> buffer list" where
  "frame_accepted sid p (Frame s d) = (if s = sid \<and> \<not> p then [d] else [])"
| "frame_accepted sid p e = []"

fun accepted :: "session_id \<Rightarrow> bool \<Rightarrow> (nat \<times> event) list \<Rightarrow> buffer list" where
  "accepted sid p [] = []"
| "accepted sid p ((t, e) # xs) = frame_accepted sid p e @ accepted sid (pause_after sid p e) xs"

fun during_call :: "session_id \<Rightarrow> nat \<Rightarrow> event \<Rightarrow> bool" where
  "during_call sid i (Connect params) = (p_sessionId params \<noteq> sid)"
| "during_call sid i (Frame s d) = True"
| "during_call sid i (Control s msg) = (s \<noteq> sid \<or> msg \<noteq> StopRecording)"
| "during_call sid i (Completes j out) = (j \<noteq> i)"
| "during_call sid i (Closed s reason) = (s \<noteq> sid)"
| "during_call sid i (BatchTimer s) = True"
| "during_call sid i (ReadyState w v) = True"

text \<open>
  A session is \<open>idle\<close> when it is registered and quiet with nothing outstanding.
  \<open>after_call\<close> describes the events between the completion of a call and the next
  frame of the session: anything but a frame or a stop-recording of the session, and
  its connection or close.
\<close>

definition idle :: "server \<Rightarrow> session_id \<Rightarrow> bool" where
  "idle st sid \<longleftrightarrow>
     quiet st sid \<and> processingQueue st sid = None \<and>
     connections (wsManager st) sid \<noteq> None \<and> sessionBuffers st sid \<noteq> None"

fun after_call :: "session_id \<Rightarrow> event \<Rightarrow> bool" where
  "after_call sid (Connect params) = (p_sessionId params \<noteq> sid)"
| "after_call sid (Frame s d) = (s \<noteq> sid)"
| "after_call sid (Control s msg) = (s \<noteq> sid \<or> msg \<noteq> StopRecording)"
| "after_call sid (Completes j out) = True"
| "after_call sid (Closed s reason) = (s \<noteq> sid)"
| "after_call sid (BatchTimer s) = True"
| "after_call sid (ReadyState w v) = True"

text \<open>The dispatches for a session among the effects of a run, in order.\<close>

definition dispatches :: "session_id \<Rightarrow> effect list list \<Rightarrow> effect list" where
  "dispatches sid ess = filter (is_dispatch sid) (concat ess)"

text \<open>
  \<open>three_frames\<close>: a session sends three frames of 1000 bytes in quick succession and
  the call for the first completes 50 ms after it started. \<open>paused_frame\<close>: a session
  sends a frame, pauses, sends a second frame, and the call for the first fails.
\<close>

definition frame1000 :: "nat \<Rightarrow> buffer" where
  "frame1000 k = replicate 1000 (of_nat k)"

definition three_frames :: "(nat \<times> event) list" where
  "three_frames =
     [(0, Connect (mk_params ''s1'' (Some ''u1''))),
      (5, Control ''s1'' StartRecording),
      (10, Frame ''s1'' (frame1000 1)),
      (11, Frame ''s1'' (frame1000 2)),
      (12, Frame ''s1'' (frame1000 3)),
      (60, Completes 0 (Resolved (mk_result ''hello'')))]"

definition paused_frame :: "(nat \<times> event) list" where
  "paused_frame =
     [(0, Connect (mk_params ''s1'' (Some ''u1''))),
      (10, Frame ''s1'' [1]),
      (20, Control ''s1'' PauseRecording),
      (30, Frame ''s1'' [2]),
      (40, Completes 0 (Rejected ''timeout''))]"

text \<open>
  \<open>stop_race\<close>: as \<open>drain_race\<close>, then a fourth frame, and the final dispatch of the
  drain completes.
\<close>

definition stop_race :: "(nat \<times> event) list" where
  "stop_race = drain_race @
     [(80, Frame ''s1'' [4]),
      (90, Completes 1 (Resolved (mk_result ''b'')))]"


section \<open>Properties of the connection registry\<close>

lemma addConnection_cases:
  assumes "maxConnectionsPerUser opts = Some N" "1 \<le> N" "p_userId params = Some u" "u \<noteq> []"
  shows "addConnection opts now params r =
     (if N \<le> int (length (user_sessions r u)) then (False, r, [])
      else (True,
            r\<lparr>connections := (connections r)(p_sessionId params \<mapsto>
                  \<lparr>ws = p_ws params, sessionId = p_sessionId params, userId = Some u,
                   metadata = p_metadata params, isAlive = True, lastActivity = now\<rparr>),
              userConnections := (userConnections r)(u \<mapsto> set_add (p_sessionId params) (user_sessions r u))\<rparr>,
            [ConnectionAdded (p_sessionId params) (Some u)]))"
  using assms
  by (auto simp: addConnection_def cap_reached_def user_sessions_def Let_def split: option.splits)

lemma admit_all_fill:
  assumes "maxConnectionsPerUser opts = Some N" "1 \<le> N" "u \<noteq> []"
  shows "distinct sids \<Longrightarrow> set sids \<inter> set (user_sessions r u) = {} \<Longrightarrow>
     int (length (user_sessions r u) + length sids) \<le> N \<Longrightarrow>
     fst (admit_all opts now u sids r) = replicate (length sids) True \<and>
     user_sessions (snd (admit_all opts now u sids r)) u = user_sessions r u @ sids"
proof (induction sids arbitrary: r)
  case Nil
  then show ?case by simp
next
  case (Cons sid sids)
  let ?p = "mk_params sid (Some u)"
  have lt: "\<not> N \<le> int (length (user_sessions r u))" using Cons.prems by simp
  obtain r' where add: "addConnection opts now ?p r = (True, r', [ConnectionAdded sid (Some u)])"
    and us: "user_sessions r' u = user_sessions r u @ [sid]"
    using addConnection_cases[OF assms(1,2) _ assms(3), of ?p now r] lt Cons.prems
    by (simp add: mk_params_def user_sessions_def set_add_def)
  have "fst (admit_all opts now u sids r') = replicate (length sids) True \<and>
     user_sessions (snd (admit_all opts now u sids r')) u = user_sessions r' u @ sids"
    using Cons.prems us by (intro Cons.IH) auto
  then show ?case using add us by (simp add: case_prod_unfold)
qed

lemma removeConnection_absent: "connections r sid = None \<Longrightarrow> removeConnection sid r = (r, [])"
  by (simp add: removeConnection_def)

lemma removeConnection_clears: "connections (fst (removeConnection sid r)) sid = None"
  by (auto simp: removeConnection_def Let_def split: option.splits)

lemma removeConnection_twice: "removeConnection sid (fst (removeConnection sid r)) = (fst (removeConnection sid r), [])"
  by (rule removeConnection_absent[OF removeConnection_clears])

lemma removeConnection_drops_user:
  "connections r sid = Some conn \<Longrightarrow> userId conn = Some u \<Longrightarrow> u \<noteq> [] \<Longrightarrow>
   userConnections r u = Some us \<Longrightarrow> set_delete sid us = [] \<Longrightarrow>
   userConnections (fst (removeConnection sid r)) u = None"
  by (simp add: removeConnection_def Let_def)

lemma consistent_empty: "consistent empty_registry"
  by (simp add: consistent_def empty_registry_def)

lemma consistentD1:
  "consistent r \<Longrightarrow> userConnections r u = Some us \<Longrightarrow> us \<noteq> [] \<and> distinct us \<and> u \<noteq> []"
  unfolding consistent_def by blast

lemma consistentD2:
  "consistent r \<Longrightarrow> userConnections r u = Some us \<Longrightarrow> sid \<in> set us \<Longrightarrow>
   \<exists>c. connections r sid = Some c \<and> userId c = Some u"
  unfolding consistent_def by blast

lemma consistentD3: "consistent r \<Longrightarrow> connections r sid = Some c \<Longrightarrow> sessionId c = sid"
  unfolding consistent_def by blast

lemma consistentD4:
  "consistent r \<Longrightarrow> connections r sid = Some c \<Longrightarrow> userId c = Some u \<Longrightarrow> u \<noteq> [] \<Longrightarrow>
   \<exists>us. userConnections r u = Some us \<and> sid \<in> set us"
  unfolding consistent_def by blast

lemma consistentI:
  assumes "\<And>u us. userConnections r u = Some us \<Longrightarrow> us \<noteq> [] \<and> distinct us \<and> u \<noteq> []"
    and "\<And>u us sid. userConnections r u = Some us \<Longrightarrow> sid \<in> set us \<Longrightarrow>
           \<exists>c. connections r sid = Some c \<and> userId c = Some u"
    and "\<And>sid c. connections r sid = Some c \<Longrightarrow> sessionId c = sid"
    and "\<And>sid c u. connections r sid = Some c \<Longrightarrow> userId c = Some u \<Longrightarrow> u \<noteq> [] \<Longrightarrow>
           \<exists>us. userConnections r u = Some us \<and> sid \<in> set us"
  shows "consistent r"
  unfolding consistent_def using assms by blast

lemma consistent_add:
  assumes c: "consistent r" and fresh: "connections r (p_sessionId params) = None"
  shows "consistent (fst (snd (addConnection opts now params r)))"
proof (cases "fst (addConnection opts now params r)")
  case False
  then have "addConnection opts now params r = (False, r, [])"
    by (auto simp: addConnection_def Let_def split: if_splits)
  then show ?thesis using c by simp
next
  case True
  let ?sid = "p_sessionId params"
  let ?conn = "\<lparr>ws = p_ws params, sessionId = ?sid, userId = p_userId params,
       metadata = p_metadata params, isAlive = True, lastActivity = now\<rparr>"
  have notin: "?sid \<notin> set us" if "userConnections r u = Some us" for u us
    using consistentD2[OF c that, of ?sid] fresh by auto
  show ?thesis
  proof (cases "truthy_str (p_userId params)")
    case False
    then have eq: "fst (snd (addConnection opts now params r)) =
        r\<lparr>connections := (connections r)(?sid \<mapsto> ?conn)\<rparr>"
      by (cases "p_userId params") (auto simp: addConnection_def Let_def)
    show ?thesis unfolding eq
    proof (rule consistentI, goal_cases)
      case (1 u us)
      then show ?case using consistentD1[OF c, of u us] by simp
    next
      case (2 u us sid)
      then show ?case using consistentD2[OF c, of u us sid] notin[of u us] by auto
    next
      case (3 sid c')
      then show ?case using consistentD3[OF c, of sid c'] by (auto split: if_splits)
    next
      case (4 sid c' u)
      then show ?case using consistentD4[OF c, of sid c' u] False by (auto split: if_splits)
    qed
  next
    case t: True
    then obtain u where u: "p_userId params = Some u" "u \<noteq> []"
      by (cases "p_userId params") auto
    let ?us = "case userConnections r u of None \<Rightarrow> [] | Some l \<Rightarrow> l"
    have eq: "fst (snd (addConnection opts now params r)) =
        r\<lparr>connections := (connections r)(?sid \<mapsto> ?conn),
          userConnections := (userConnections r)(u \<mapsto> ?us @ [?sid])\<rparr>"
      using True u notin[of u]
      by (auto simp: addConnection_def Let_def set_add_def split: if_splits option.splits)
    have d: "distinct (?us @ [?sid])"
      using consistentD1[OF c, of u] notin[of u] by (auto split: option.splits)
    have old: "\<exists>c. connections r s = Some c \<and> userId c = Some u" if "s \<in> set ?us" for s
      using that consistentD2[OF c, of u _ s] by (cases "userConnections r u") auto
    show ?thesis unfolding eq
    proof (rule consistentI, goal_cases)
      case (1 u' us)
      then show ?case using consistentD1[OF c, of u' us] d u by (auto split: if_splits)
    next
      case (2 u' us sid)
      show ?case
      proof (cases "u' = u")
        case True
        then show ?thesis using 2 old[of sid] u by auto
      next
        case False
        then show ?thesis using 2 consistentD2[OF c, of u' us sid] notin[of u' us] by auto
      qed
    next
      case (3 sid c')
      then show ?case using consistentD3[OF c, of sid c'] by (auto split: if_splits)
    next
      case (4 sid c' u')
      then show ?case using consistentD4[OF c, of sid c' u'] u
        by (cases "userConnections r u") (auto split: if_splits)
    qed
  qed
qed

lemma consistent_remove:
  assumes c: "consistent r"
  shows "consistent (fst (removeConnection sid r))"
proof (cases "connections r sid")
  case None
  then show ?thesis using c by (simp add: removeConnection_def)
next
  case (Some conn)
  have other: "sid \<notin> set us" if "userConnections r u' = Some us" "userId conn \<noteq> Some u'" for u' us
    using consistentD2[OF c that(1), of sid] Some that(2) by auto
  show ?thesis
  proof (cases "truthy_str (userId conn)")
    case False
    then have eq: "fst (removeConnection sid r) = r\<lparr>connections := (connections r)(sid := None)\<rparr>"
      using Some by (simp add: removeConnection_def Let_def)
    have nouser: "userId conn \<noteq> Some u'" if "userConnections r u' = Some us" for u' us
      using False consistentD1[OF c that] by (cases "userId conn") auto
    show ?thesis unfolding eq
    proof (rule consistentI, goal_cases)
      case (1 u us)
      then show ?case using consistentD1[OF c, of u us] by simp
    next
      case (2 u us s)
      then show ?case using consistentD2[OF c, of u us s] other[of u us] nouser[of u us] by auto
    next
      case (3 s c')
      then show ?case using consistentD3[OF c, of s c'] by (auto split: if_splits)
    next
      case (4 s c' u)
      then show ?case using consistentD4[OF c, of s c' u] by (auto split: if_splits)
    qed
  next
    case True
    then obtain u where u: "userId conn = Some u" "u \<noteq> []" by (cases "userId conn") auto
    obtain us where us: "userConnections r u = Some us" "sid \<in> set us"
      using consistentD4[OF c Some u] by blast
    have eq: "fst (removeConnection sid r) =
       r\<lparr>connections := (connections r)(sid := None),
         userConnections := (if removeAll sid us = [] then (userConnections r)(u := None)
                             else (userConnections r)(u \<mapsto> removeAll sid us))\<rparr>"
      using Some u us by (simp add: removeConnection_def Let_def set_delete_def)
    show ?thesis unfolding eq
    proof (rule consistentI, goal_cases)
      case (1 u' us')
      then show ?case using consistentD1[OF c, of u' us'] consistentD1[OF c us(1)]
        by (auto simp: distinct_removeAll split: if_splits)
    next
      case (2 u' us' s)
      show ?case
      proof (cases "u' = u")
        case True
        then have "s \<in> set us" "s \<noteq> sid" using 2 by (auto split: if_splits)
        then show ?thesis using consistentD2[OF c us(1), of s] True by auto
      next
        case False
        then have "userConnections r u' = Some us'" using 2 by (auto split: if_splits)
        then show ?thesis using consistentD2[OF c _ 2(2), of u'] other[of u' us'] u False 2(2) by auto
      qed
    next
      case (3 s c')
      then show ?case using consistentD3[OF c, of s c'] by (auto split: if_splits)
    next
      case (4 s c' u')
      then have s: "s \<noteq> sid" "connections r s = Some c'" by (auto split: if_splits)
      obtain us' where us': "userConnections r u' = Some us'" "s \<in> set us'"
        using consistentD4[OF c s(2) 4(2,3)] by blast
      have "s \<in> set (removeAll sid us')" using us' s by simp
      then have "removeAll sid us' \<noteq> []" by (metis empty_iff list.set(1))
      then show ?case using s us us' by (cases "u' = u") auto
    qed
  qed
qed

lemma consistent_run:
  "consistent r \<Longrightarrow> unique_ids opts r ops \<Longrightarrow> consistent (run_ops opts r ops)"
proof (induction ops arbitrary: r)
  case Nil
  then show ?case by simp
next
  case (Cons x xs)
  then show ?case
    by (cases x) (auto intro: consistent_add consistent_remove)
qed

lemma getConnectionsByUser_iff:
  assumes c: "consistent r" and u: "u \<noteq> []"
  shows "(\<exists>c \<in> set (getConnectionsByUser u r). sessionId c = sid) \<longleftrightarrow>
         (\<exists>c. getConnection sid r = Some c \<and> userId c = Some u)"
proof
  assume "\<exists>c \<in> set (getConnectionsByUser u r). sessionId c = sid"
  then obtain c' us s where "userConnections r u = Some us" "s \<in> set us" "connections r s = Some c'" "sessionId c' = sid"
    by (auto simp: getConnectionsByUser_def List.map_filter_def split: option.splits) metis
  then show "\<exists>c. getConnection sid r = Some c \<and> userId c = Some u"
    using consistentD2[OF c, of u us s] consistentD3[OF c, of s c'] by (auto simp: getConnection_def)
next
  assume "\<exists>c. getConnection sid r = Some c \<and> userId c = Some u"
  then obtain c' where c': "connections r sid = Some c'" "userId c' = Some u"
    by (auto simp: getConnection_def)
  obtain us where "userConnections r u = Some us" "sid \<in> set us"
    using consistentD4[OF c c' u] by blast
  then show "\<exists>c \<in> set (getConnectionsByUser u r). sessionId c = sid"
    using c' consistentD3[OF c c'(1)]
    by (auto simp: getConnectionsByUser_def List.map_filter_def image_iff intro!: bexI[of _ sid])
qed

lemma remove_unreferenced:
  assumes c: "consistent r"
  shows "connections (fst (removeConnection sid r)) sid = None \<and>
         (\<forall>u us. userConnections (fst (removeConnection sid r)) u = Some us \<longrightarrow> sid \<notin> set us)"
  using consistentD2[OF consistent_remove[OF c, of sid], of _ _ sid] removeConnection_clears[of sid r]
  by auto


lemma addConnection_uncapped:
  assumes "maxConnectionsPerUser opts = None \<or> maxConnectionsPerUser opts = Some 0"
    "p_userId params = Some u" "u \<noteq> []"
  shows "addConnection opts now params r =
     (True,
      r\<lparr>connections := (connections r)(p_sessionId params \<mapsto>
            \<lparr>ws = p_ws params, sessionId = p_sessionId params, userId = Some u,
             metadata = p_metadata params, isAlive = True, lastActivity = now\<rparr>),
        userConnections := (userConnections r)(u \<mapsto> set_add (p_sessionId params) (user_sessions r u))\<rparr>,
      [ConnectionAdded (p_sessionId params) (Some u)])"
  using assms
  by (auto simp: addConnection_def user_sessions_def Let_def split: option.splits)

lemma addConnection_unindexed:
  assumes "p_userId params = None \<or> p_userId params = Some []"
  shows "addConnection opts now params r =
     (True,
      r\<lparr>connections := (connections r)(p_sessionId params \<mapsto>
            \<lparr>ws = p_ws params, sessionId = p_sessionId params, userId = p_userId params,
             metadata = p_metadata params, isAlive = True, lastActivity = now\<rparr>)\<rparr>,
      [ConnectionAdded (p_sessionId params) (p_userId params)])"
  using assms
  by (auto simp: addConnection_def Let_def)

text \<open>
  C4 (admission cap), as the code has it. With a cap \<open>N \<ge> 1\<close> configured and a
  non-empty userId, \<open>addConnection\<close> returns false and leaves both indices unchanged
  (emitting nothing) when the user already holds \<open>N\<close> or more sessions, and otherwise
  registers the connection in both indices and returns true. In particular, after \<open>N\<close>
  admissions of distinct sessions for a user without sessions, all of which succeed, the
  next admission for that user is rejected and registers nothing.

  The source tests the cap by truthiness
  (\<^verbatim>\<open>userId && this.options.maxConnectionsPerUser\<close>). With no maximum configured or
  with a maximum of 0, an admission with a non-empty userId succeeds and registers the
  connection in both indices, however many sessions the user holds. An admission without
  a userId, or with the empty string as userId, succeeds whatever the maximum is and
  registers the connection in the primary index only.
\<close>

theorem addConnection_admission_cap:
  "(maxConnectionsPerUser opts = Some N \<and> 1 \<le> N \<and> p_userId params = Some u \<and> u \<noteq> [] \<longrightarrow>
     addConnection opts now params r =
       (if N \<le> int (length (user_sessions r u)) then (False, r, [])
        else (True,
              r\<lparr>connections := (connections r)(p_sessionId params \<mapsto>
                    \<lparr>ws = p_ws params, sessionId = p_sessionId params, userId = Some u,
                     metadata = p_metadata params, isAlive = True, lastActivity = now\<rparr>),
                userConnections :=
                  (userConnections r)(u \<mapsto> set_add (p_sessionId params) (user_sessions r u))\<rparr>,
              [ConnectionAdded (p_sessionId params) (Some u)])) \<and>
     (distinct sids \<and> int (length sids) = N \<and> userConnections r u = None \<longrightarrow>
        fst (admit_all opts now u sids r) = replicate (length sids) True \<and>
        addConnection opts now params (snd (admit_all opts now u sids r)) =
          (False, snd (admit_all opts now u sids r), []))) \<and>
   ((maxConnectionsPerUser opts = None \<or> maxConnectionsPerUser opts = Some 0) \<and>
    p_userId params = Some u \<and> u \<noteq> [] \<longrightarrow>
     addConnection opts now params r =
       (True,
        r\<lparr>connections := (connections r)(p_sessionId params \<mapsto>
              \<lparr>ws = p_ws params, sessionId = p_sessionId params, userId = Some u,
               metadata = p_metadata params, isAlive = True, lastActivity = now\<rparr>),
          userConnections :=
            (userConnections r)(u \<mapsto> set_add (p_sessionId params) (user_sessions r u))\<rparr>,
        [ConnectionAdded (p_sessionId params) (Some u)])) \<and>
   (p_userId params = None \<or> p_userId params = Some [] \<longrightarrow>
     addConnection opts now params r =
       (True,
        r\<lparr>connections := (connections r)(p_sessionId params \<mapsto>
              \<lparr>ws = p_ws params, sessionId = p_sessionId params, userId = p_userId params,
               metadata = p_metadata params, isAlive = True, lastActivity = now\<rparr>)\<rparr>,
        [ConnectionAdded (p_sessionId params) (p_userId params)]))"
proof (intro conjI impI; (elim conjE)?)
  assume a: "maxConnectionsPerUser opts = Some N" "1 \<le> N" "p_userId params = Some u" "u \<noteq> []"
  show "addConnection opts now params r =
       (if N \<le> int (length (user_sessions r u)) then (False, r, [])
        else (True,
              r\<lparr>connections := (connections r)(p_sessionId params \<mapsto>
                    \<lparr>ws = p_ws params, sessionId = p_sessionId params, userId = Some u,
                     metadata = p_metadata params, isAlive = True, lastActivity = now\<rparr>),
                userConnections :=
                  (userConnections r)(u \<mapsto> set_add (p_sessionId params) (user_sessions r u))\<rparr>,
              [ConnectionAdded (p_sessionId params) (Some u)]))"
    by (rule addConnection_cases[OF a])
next
  assume a: "maxConnectionsPerUser opts = Some N" "1 \<le> N" "p_userId params = Some u" "u \<noteq> []"
    and b: "distinct sids" "int (length sids) = N" "userConnections r u = None"
  have e: "user_sessions r u = []" using b(3) by (simp add: user_sessions_def)
  have f: "fst (admit_all opts now u sids r) = replicate (length sids) True \<and>
       user_sessions (snd (admit_all opts now u sids r)) u = user_sessions r u @ sids"
    using b e by (intro admit_all_fill[OF a(1,2,4)]) auto
  then show "fst (admit_all opts now u sids r) = replicate (length sids) True" by simp
  show "addConnection opts now params (snd (admit_all opts now u sids r)) =
          (False, snd (admit_all opts now u sids r), [])"
    using addConnection_cases[OF a, of now "snd (admit_all opts now u sids r)"] f b(2) e by simp
next
  assume "maxConnectionsPerUser opts = None \<or> maxConnectionsPerUser opts = Some 0"
    "p_userId params = Some u" "u \<noteq> []"
  then show "addConnection opts now params r =
       (True,
        r\<lparr>connections := (connections r)(p_sessionId params \<mapsto>
              \<lparr>ws = p_ws params, sessionId = p_sessionId params, userId = Some u,
               metadata = p_metadata params, isAlive = True, lastActivity = now\<rparr>),
          userConnections :=
            (userConnections r)(u \<mapsto> set_add (p_sessionId params) (user_sessions r u))\<rparr>,
        [ConnectionAdded (p_sessionId params) (Some u)])"
    by (rule addConnection_uncapped)
next
  assume "p_userId params = None \<or> p_userId params = Some []"
  then show "addConnection opts now params r =
       (True,
        r\<lparr>connections := (connections r)(p_sessionId params \<mapsto>
              \<lparr>ws = p_ws params, sessionId = p_sessionId params, userId = p_userId params,
               metadata = p_metadata params, isAlive = True, lastActivity = now\<rparr>)\<rparr>,
        [ConnectionAdded (p_sessionId params) (p_userId params)])"
    by (rule addConnection_unindexed)
qed

text \<open>
  Witness of C4: with a cap of 2, two sessions of user \<open>u1\<close> are admitted into the empty
  registry and the third is rejected, leaving the registry as it was. Into the same
  registry the third session is admitted when no maximum is configured, when the
  maximum is 0, and when it comes with the empty string as userId.
\<close>

theorem addConnection_admission_cap_witness:
  "fst (admit_all (cap_options (Some 2)) 7 ''u1'' [''s1'', ''s2''] empty_registry) = [True, True] \<and>
   addConnection (cap_options (Some 2)) 7 (mk_params ''s3'' (Some ''u1''))
       (snd (admit_all (cap_options (Some 2)) 7 ''u1'' [''s1'', ''s2''] empty_registry)) =
     (False, snd (admit_all (cap_options (Some 2)) 7 ''u1'' [''s1'', ''s2''] empty_registry), []) \<and>
   fst (addConnection (cap_options None) 7 (mk_params ''s3'' (Some ''u1''))
       (snd (admit_all (cap_options (Some 2)) 7 ''u1'' [''s1'', ''s2''] empty_registry))) = True \<and>
   fst (addConnection (cap_options (Some 0)) 7 (mk_params ''s3'' (Some ''u1''))
       (snd (admit_all (cap_options (Some 2)) 7 ''u1'' [''s1'', ''s2''] empty_registry))) = True \<and>
   fst (addConnection (cap_options (Some 2)) 7 (mk_params ''s3'' (Some ''''))
       (snd (admit_all (cap_options (Some 2)) 7 ''u1'' [''s1'', ''s2''] empty_registry))) = True"
proof -
  define r2 where "r2 = snd (admit_all (cap_options (Some 2)) 7 ''u1'' [''s1'', ''s2''] empty_registry)"
  have a: "fst (admit_all (cap_options (Some 2)) 7 ''u1'' [''s1'', ''s2''] empty_registry) = [True, True] \<and>
     addConnection (cap_options (Some 2)) 7 (mk_params ''s3'' (Some ''u1'')) r2 = (False, r2, [])"
    unfolding r2_def
    using addConnection_admission_cap [of "cap_options (Some 2)" 2 "mk_params ''s3'' (Some ''u1'')"
      "''u1''" 7 empty_registry "[''s1'', ''s2'']"]
    by (simp add: cap_options_def mk_params_def empty_registry_def)
  have b: "fst (addConnection (cap_options None) 7 (mk_params ''s3'' (Some ''u1'')) r2) = True"
    using addConnection_admission_cap [of "cap_options None" 0 "mk_params ''s3'' (Some ''u1'')"
      "''u1''" 7 r2 "[]"]
    by (simp add: cap_options_def mk_params_def)
  have c: "fst (addConnection (cap_options (Some 0)) 7 (mk_params ''s3'' (Some ''u1'')) r2) = True"
    using addConnection_admission_cap [of "cap_options (Some 0)" 0 "mk_params ''s3'' (Some ''u1'')"
      "''u1''" 7 r2 "[]"]
    by (simp add: cap_options_def mk_params_def)
  have d: "fst (addConnection (cap_options (Some 2)) 7 (mk_params ''s3'' (Some '''')) r2) = True"
    using addConnection_admission_cap [of "cap_options (Some 2)" 2 "mk_params ''s3'' (Some '''')"
      "''''" 7 r2 "[]"]
    by (simp add: cap_options_def mk_params_def)
  show ?thesis using a b c d unfolding r2_def by simp
qed

text \<open>
  C4 as stated fails at \<open>N = 0\<close>: the source tests
  \<^verbatim>\<open>userId && this.options.maxConnectionsPerUser\<close>, and a cap of zero is falsy, so
  no cap is enforced. User \<open>u1\<close> holds no session, which is the configured maximum of
  0, and the admission of a first session returns true. The user then holds one session,
  and the admission of a second session returns true and registers it.
\<close>

theorem addConnection_zero_cap_counterexample:
  "maxConnectionsPerUser (cap_options (Some 0)) = Some 0 \<and>
   user_sessions empty_registry ''u1'' = [] \<and>
   fst (addConnection (cap_options (Some 0)) 7 (mk_params ''s1'' (Some ''u1'')) empty_registry) = True \<and>
   user_sessions
     (fst (snd (addConnection (cap_options (Some 0)) 7 (mk_params ''s1'' (Some ''u1'')) empty_registry)))
     ''u1'' = [''s1''] \<and>
   fst (addConnection (cap_options (Some 0)) 8 (mk_params ''s2'' (Some ''u1''))
     (fst (snd (addConnection (cap_options (Some 0)) 7 (mk_params ''s1'' (Some ''u1'')) empty_registry))))
     = True \<and>
   user_sessions
     (fst (snd (addConnection (cap_options (Some 0)) 8 (mk_params ''s2'' (Some ''u1''))
        (fst (snd (addConnection (cap_options (Some 0)) 7 (mk_params ''s1'' (Some ''u1'')) empty_registry))))))
     ''u1'' = [''s1'', ''s2''] \<and>
   getConnection ''s2''
     (fst (snd (addConnection (cap_options (Some 0)) 8 (mk_params ''s2'' (Some ''u1''))
        (fst (snd (addConnection (cap_options (Some 0)) 7 (mk_params ''s1'' (Some ''u1'')) empty_registry))))))
     \<noteq> None"
  by (simp add: cap_options_def user_sessions_def empty_registry_def addConnection_def
      mk_params_def cap_reached_def getConnection_def set_add_def Let_def)

lemma getConnectionsByUser_empty_userId:
  "consistent r \<Longrightarrow> userConnections r [] = None \<and> getConnectionsByUser [] r = []"
  using consistentD1[of r "[]"] by (cases "userConnections r []") (auto simp: getConnectionsByUser_def)

text \<open>
  C5 (index consistency), as the code has it. In every registry reached from the empty
  one by calls of \<open>addConnection\<close> and \<open>removeConnection\<close> in which no session is
  admitted under a sessionId that is registered at that moment: each user's set in the
  secondary index is non-empty, belongs to a non-empty userId, and each of its
  sessionIds has a connection of that user in the primary index; for a non-empty userId,
  \<open>getConnectionsByUser\<close> lists a session exactly when \<open>getConnection\<close> returns a
  connection of that user for it; and after \<open>removeConnection\<close> neither index refers to
  the removed sessionId.

  The source guards the secondary index by \<^verbatim>\<open>if (userId)\<close>. So the secondary index
  has no entry for the empty string and \<open>getConnectionsByUser\<close> lists nothing for it;
  and an admission with the empty string as userId succeeds, registers the connection
  in the primary index and leaves the secondary index as it was.
\<close>

theorem index_consistency:
  "unique_ids opts empty_registry ops \<longrightarrow>
     (\<forall>u us. userConnections (run_ops opts empty_registry ops) u = Some us \<longrightarrow>
        us \<noteq> [] \<and> u \<noteq> [] \<and>
        (\<forall>sid \<in> set us. \<exists>c. connections (run_ops opts empty_registry ops) sid = Some c \<and>
                              userId c = Some u)) \<and>
     (\<forall>sid u. u \<noteq> [] \<longrightarrow>
        ((\<exists>c \<in> set (getConnectionsByUser u (run_ops opts empty_registry ops)). sessionId c = sid) \<longleftrightarrow>
         (\<exists>c. getConnection sid (run_ops opts empty_registry ops) = Some c \<and> userId c = Some u))) \<and>
     (\<forall>sid. connections (fst (removeConnection sid (run_ops opts empty_registry ops))) sid = None \<and>
        (\<forall>u us. userConnections (fst (removeConnection sid (run_ops opts empty_registry ops))) u = Some us
           \<longrightarrow> sid \<notin> set us)) \<and>
     userConnections (run_ops opts empty_registry ops) [] = None \<and>
     getConnectionsByUser [] (run_ops opts empty_registry ops) = [] \<and>
     (\<forall>params now. p_userId params = Some [] \<longrightarrow>
        fst (addConnection opts now params (run_ops opts empty_registry ops)) = True \<and>
        map_option userId (getConnection (p_sessionId params)
          (fst (snd (addConnection opts now params (run_ops opts empty_registry ops))))) = Some (Some []) \<and>
        userConnections (fst (snd (addConnection opts now params (run_ops opts empty_registry ops)))) =
          userConnections (run_ops opts empty_registry ops))"
proof
  assume "unique_ids opts empty_registry ops"
  then have c: "consistent (run_ops opts empty_registry ops)"
    by (rule consistent_run[OF consistent_empty])
  define R where "R = run_ops opts empty_registry ops"
  have p1: "\<forall>u us. userConnections R u = Some us \<longrightarrow>
        us \<noteq> [] \<and> u \<noteq> [] \<and> (\<forall>sid \<in> set us. \<exists>c. connections R sid = Some c \<and> userId c = Some u)"
    using consistentD1[OF c] consistentD2[OF c] unfolding R_def by blast
  have p2: "\<forall>sid u. u \<noteq> [] \<longrightarrow>
        ((\<exists>c \<in> set (getConnectionsByUser u R). sessionId c = sid) \<longleftrightarrow>
         (\<exists>c. getConnection sid R = Some c \<and> userId c = Some u))"
    using getConnectionsByUser_iff[OF c] unfolding R_def by blast
  have p3: "\<forall>sid. connections (fst (removeConnection sid R)) sid = None \<and>
        (\<forall>u us. userConnections (fst (removeConnection sid R)) u = Some us \<longrightarrow> sid \<notin> set us)"
    using remove_unreferenced[OF c] unfolding R_def by blast
  have p4: "userConnections R [] = None \<and> getConnectionsByUser [] R = []"
    using getConnectionsByUser_empty_userId[OF c] unfolding R_def .
  have p5: "\<forall>params now. p_userId params = Some [] \<longrightarrow>
        fst (addConnection opts now params R) = True \<and>
        map_option userId (getConnection (p_sessionId params)
          (fst (snd (addConnection opts now params R)))) = Some (Some []) \<and>
        userConnections (fst (snd (addConnection opts now params R))) = userConnections R"
    by (simp add: addConnection_unindexed getConnection_def)
  show "(\<forall>u us. userConnections (run_ops opts empty_registry ops) u = Some us \<longrightarrow>
        us \<noteq> [] \<and> u \<noteq> [] \<and>
        (\<forall>sid \<in> set us. \<exists>c. connections (run_ops opts empty_registry ops) sid = Some c \<and>
                              userId c = Some u)) \<and>
     (\<forall>sid u. u \<noteq> [] \<longrightarrow>
        ((\<exists>c \<in> set (getConnectionsByUser u (run_ops opts empty_registry ops)). sessionId c = sid) \<longleftrightarrow>
         (\<exists>c. getConnection sid (run_ops opts empty_registry ops) = Some c \<and> userId c = Some u))) \<and>
     (\<forall>sid. connections (fst (removeConnection sid (run_ops opts empty_registry ops))) sid = None \<and>
        (\<forall>u us. userConnections (fst (removeConnection sid (run_ops opts empty_registry ops))) u = Some us
           \<longrightarrow> sid \<notin> set us)) \<and>
     userConnections (run_ops opts empty_registry ops) [] = None \<and>
     getConnectionsByUser [] (run_ops opts empty_registry ops) = [] \<and>
     (\<forall>params now. p_userId params = Some [] \<longrightarrow>
        fst (addConnection opts now params (run_ops opts empty_registry ops)) = True \<and>
        map_option userId (getConnection (p_sessionId params)
          (fst (snd (addConnection opts now params (run_ops opts empty_registry ops))))) = Some (Some []) \<and>
        userConnections (fst (snd (addConnection opts now params (run_ops opts empty_registry ops)))) =
          userConnections (run_ops opts empty_registry ops))"
    using p1 p2 p3 p4 p5 unfolding R_def by blast
qed

text \<open>
  Witness of C5: two sessions of user \<open>u1\<close> are admitted and the first is removed. The
  user's set then holds the second session only, which is in the primary index, and
  removing it leaves no reference to it. A third session admitted with the empty string
  as userId is in the primary index, and the secondary index still holds the second
  session of \<open>u1\<close> and nothing else.
\<close>

theorem index_consistency_witness:
  "unique_ids (cap_options None) empty_registry
     [Add (mk_params ''s1'' (Some ''u1'')) 7, Add (mk_params ''s2'' (Some ''u1'')) 8, Remove ''s1''] \<and>
   userConnections (run_ops (cap_options None) empty_registry
     [Add (mk_params ''s1'' (Some ''u1'')) 7, Add (mk_params ''s2'' (Some ''u1'')) 8, Remove ''s1''])
     ''u1'' = Some [''s2''] \<and>
   connections (run_ops (cap_options None) empty_registry
     [Add (mk_params ''s1'' (Some ''u1'')) 7, Add (mk_params ''s2'' (Some ''u1'')) 8, Remove ''s1''])
     ''s2'' \<noteq> None \<and>
   connections (fst (removeConnection ''s2'' (run_ops (cap_options None) empty_registry
     [Add (mk_params ''s1'' (Some ''u1'')) 7, Add (mk_params ''s2'' (Some ''u1'')) 8, Remove ''s1''])))
     ''s2'' = None \<and>
   getConnection ''s3'' (fst (snd (addConnection (cap_options None) 9 (mk_params ''s3'' (Some ''''))
     (run_ops (cap_options None) empty_registry
       [Add (mk_params ''s1'' (Some ''u1'')) 7, Add (mk_params ''s2'' (Some ''u1'')) 8, Remove ''s1''])))) \<noteq> None \<and>
   userConnections (fst (snd (addConnection (cap_options None) 9 (mk_params ''s3'' (Some ''''))
     (run_ops (cap_options None) empty_registry
       [Add (mk_params ''s1'' (Some ''u1'')) 7, Add (mk_params ''s2'' (Some ''u1'')) 8, Remove ''s1'']))))
     ''u1'' = Some [''s2'']"
proof -
  let ?ops = "[Add (mk_params ''s1'' (Some ''u1'')) 7, Add (mk_params ''s2'' (Some ''u1'')) 8, Remove ''s1'']"
  define R where "R = run_ops (cap_options None) empty_registry ?ops"
  have u: "unique_ids (cap_options None) empty_registry ?ops"
    by (simp add: cap_options_def mk_params_def empty_registry_def addConnection_def Let_def)
  have v: "userConnections R ''u1'' = Some [''s2'']"
    unfolding R_def
    by (simp add: cap_options_def mk_params_def empty_registry_def addConnection_def
        removeConnection_def set_add_def set_delete_def Let_def)
  note k = index_consistency [of "cap_options None" ?ops, folded R_def]
  have a: "connections R ''s2'' \<noteq> None"
    using k u v by fastforce
  have b: "connections (fst (removeConnection ''s2'' R)) ''s2'' = None"
    using k u by blast
  have p: "p_userId (mk_params ''s3'' (Some '''')) = Some []" "p_sessionId (mk_params ''s3'' (Some '''')) = ''s3''"
    by (simp_all add: mk_params_def)
  have c: "map_option userId (getConnection ''s3''
          (fst (snd (addConnection (cap_options None) 9 (mk_params ''s3'' (Some '''')) R)))) = Some (Some []) \<and>
        userConnections (fst (snd (addConnection (cap_options None) 9 (mk_params ''s3'' (Some '''')) R))) =
          userConnections R"
    using k u p by metis
  show ?thesis using u v a b c unfolding R_def by auto
qed

text \<open>
  C5 as stated fails for a session admitted with the empty string as userId: the source
  guards the secondary index by \<^verbatim>\<open>if (userId)\<close>, so the session is in the primary
  index only. \<open>getConnection\<close> returns it and \<open>getConnectionsByUser\<close> does not list it.
\<close>

theorem index_empty_userId_counterexample:
  "fst (addConnection (cap_options None) 7 (mk_params ''s1'' (Some '''')) empty_registry) = True \<and>
   map_option userId (getConnection ''s1''
     (fst (snd (addConnection (cap_options None) 7 (mk_params ''s1'' (Some '''')) empty_registry))))
     = Some (Some '''') \<and>
   getConnectionsByUser ''''
     (fst (snd (addConnection (cap_options None) 7 (mk_params ''s1'' (Some '''')) empty_registry)))
     = []"
  by (simp add: cap_options_def empty_registry_def addConnection_def
      mk_params_def getConnection_def getConnectionsByUser_def)

text \<open>
  C6 (removal idempotence). \<open>removeConnection\<close> on a sessionId absent from the primary
  index returns the registry unchanged and emits nothing; a second removal of the same
  sessionId is such a call, so twice equals once; and when the removed connection's
  user set becomes empty, the user's entry is deleted from the secondary index.
\<close>

theorem removeConnection_idempotent:
  "(connections r sid = None \<longrightarrow> removeConnection sid r = (r, [])) \<and>
   removeConnection sid (fst (removeConnection sid r)) = (fst (removeConnection sid r), []) \<and>
   (connections r sid = Some conn \<and> userId conn = Some u \<and> u \<noteq> [] \<and>
    userConnections r u = Some us \<and> set_delete sid us = [] \<longrightarrow>
      userConnections (fst (removeConnection sid r)) u = None)"
  using removeConnection_absent[of r sid] removeConnection_twice[of sid r]
    removeConnection_drops_user[of r sid conn u us]
  by blast

text \<open>
  Witness of C6: the only session of user \<open>u1\<close> is removed twice. The first removal
  empties both indices, the second changes nothing.
\<close>

theorem removeConnection_idempotent_witness:
  "removeConnection ''s1'' empty_registry = (empty_registry, []) \<and>
   fst (removeConnection ''s1''
     (fst (snd (addConnection (cap_options None) 7 (mk_params ''s1'' (Some ''u1'')) empty_registry))))
     = empty_registry \<and>
   removeConnection ''s1'' (fst (removeConnection ''s1''
     (fst (snd (addConnection (cap_options None) 7 (mk_params ''s1'' (Some ''u1'')) empty_registry)))))
     = (empty_registry, [])"
proof -
  let ?r = "fst (snd (addConnection (cap_options None) 7 (mk_params ''s1'' (Some ''u1'')) empty_registry))"
  have e: "fst (removeConnection ''s1'' ?r) = empty_registry"
    by (simp add: cap_options_def mk_params_def empty_registry_def addConnection_def
        removeConnection_def set_add_def set_delete_def Let_def)
  have n: "connections empty_registry ''s1'' = None" by (simp add: empty_registry_def)
  from removeConnection_idempotent [of empty_registry "''s1''"] n
    removeConnection_idempotent [of ?r "''s1''"] e
  show ?thesis by simp
qed


section \<open>Properties of the batch processor\<close>


lemma append_item_new:
  assumes "included (options st) it" "batchMap st sid = None"
  shows "append_item sid (now, it) st =
     (let t = \<lparr>armed_at = now, delay = batchTimeout (options st)\<rparr>;
          b = \<lparr>audio = item_audio it, transcripts = item_transcripts it, b_metadata = [], timer = Some t\<rparr>
      in if 1 \<ge> maxBatchSize (options st)
         then (st\<lparr>batchMap := (batchMap st)(sid := None)\<rparr>,
               [SetTimeout sid t, ClearTimeout t, EmitLLMRequest (build_request now sid b)]
                 @ (if llmHandler st then [CallHandler (build_request now sid b)] else []))
         else (st\<lparr>batchMap := (batchMap st)(sid \<mapsto> b)\<rparr>, [SetTimeout sid t]))"
  using assms
  by (cases it)
     (simp_all add: processAudioChunk_def processTranscription_def getOrCreateBatch_def
        push_audio_def push_transcript_def checkBatchSize_def processBatch_def Let_def)

lemma append_item_existing:
  assumes "included (options st) it" "batchMap st sid = Some b"
  shows "append_item sid (now, it) st =
     (let b' = b\<lparr>audio := audio b @ item_audio it, transcripts := transcripts b @ item_transcripts it\<rparr>
      in if int (length (audio b') + length (transcripts b')) \<ge> maxBatchSize (options st)
         then (st\<lparr>batchMap := (batchMap st)(sid := None)\<rparr>,
               (case timer b of None \<Rightarrow> [] | Some t \<Rightarrow> [ClearTimeout t])
                 @ [EmitLLMRequest (build_request now sid b')]
                 @ (if llmHandler st then [CallHandler (build_request now sid b')] else []))
         else (st\<lparr>batchMap := (batchMap st)(sid \<mapsto> b')\<rparr>, []))"
  using assms
  by (cases it)
     (simp_all add: processAudioChunk_def processTranscription_def getOrCreateBatch_def
        push_audio_def push_transcript_def checkBatchSize_def processBatch_def Let_def)


lemma append_item_llmHandler: "llmHandler (fst (append_item sid x st)) = llmHandler st"
  by (cases x, cases "snd x")
     (auto simp: processAudioChunk_def processTranscription_def getOrCreateBatch_def
        push_audio_def push_transcript_def checkBatchSize_def processBatch_def Let_def
        split: option.splits prod.splits if_splits)

lemma appends_existing:
  "\<forall>y \<in> set items. included (options st) (snd y) \<Longrightarrow> batchMap st sid = Some b \<Longrightarrow>
   int (length (audio b) + length (transcripts b) + length items) < maxBatchSize (options st) \<Longrightarrow>
   appends sid items st =
     (st\<lparr>batchMap := (batchMap st)(sid \<mapsto>
          b\<lparr>audio := audio b @ items_audio items,
            transcripts := transcripts b @ items_transcripts items\<rparr>)\<rparr>, [])"
proof (induction items arbitrary: st b)
  case Nil
  have "(batchMap st)(sid \<mapsto> b) = batchMap st" using Nil.prems(2) by (rule map_upd_triv)
  then show ?case by simp
next
  case (Cons x xs)
  obtain now it where x: "x = (now, it)" by (cases x)
  have inc: "included (options st) it" using Cons.prems(1) x by simp
  let ?b' = "b\<lparr>audio := audio b @ item_audio it, transcripts := transcripts b @ item_transcripts it\<rparr>"
  let ?st1 = "st\<lparr>batchMap := (batchMap st)(sid \<mapsto> ?b')\<rparr>"
  have len: "length (audio ?b') + length (transcripts ?b') = length (audio b) + length (transcripts b) + 1"
    by (cases it) simp_all
  have step: "append_item sid x st = (?st1, [])"
    using append_item_existing[OF inc Cons.prems(2), of now] Cons.prems(3) len
    by (simp add: x Let_def)
  have rest: "appends sid xs ?st1 =
     (?st1\<lparr>batchMap := (batchMap ?st1)(sid \<mapsto>
          ?b'\<lparr>audio := audio ?b' @ items_audio xs,
            transcripts := transcripts ?b' @ items_transcripts xs\<rparr>)\<rparr>, [])"
    using Cons.prems len by (intro Cons.IH) auto
  show ?case using step rest by (simp add: x del: fun_upd_apply)
qed

lemma appends_fresh:
  assumes "\<forall>y \<in> set (x # xs). included (options st) (snd y)" "batchMap st sid = None"
    and "int (length (x # xs)) < maxBatchSize (options st)"
  shows "appends sid (x # xs) st =
     (st\<lparr>batchMap := (batchMap st)(sid \<mapsto>
          \<lparr>audio = items_audio (x # xs),
           transcripts = items_transcripts (x # xs),
           b_metadata = [],
           timer = Some \<lparr>armed_at = fst x, delay = batchTimeout (options st)\<rparr>\<rparr>)\<rparr>,
      [SetTimeout sid \<lparr>armed_at = fst x, delay = batchTimeout (options st)\<rparr>])"
proof -
  obtain now it where x: "x = (now, it)" by (cases x)
  have inc: "included (options st) it" using assms(1) x by simp
  let ?t = "\<lparr>armed_at = now, delay = batchTimeout (options st)\<rparr>"
  let ?b = "\<lparr>audio = item_audio it, transcripts = item_transcripts it, b_metadata = [], timer = Some ?t\<rparr>"
  let ?st1 = "st\<lparr>batchMap := (batchMap st)(sid \<mapsto> ?b)\<rparr>"
  have one: "length (audio ?b) + length (transcripts ?b) = 1" by (cases it) simp_all
  have step: "append_item sid x st = (?st1, [SetTimeout sid ?t])"
    using append_item_new[OF inc assms(2), of now] assms(3) by (simp add: x Let_def)
  have rest: "appends sid xs ?st1 =
     (?st1\<lparr>batchMap := (batchMap ?st1)(sid \<mapsto>
          ?b\<lparr>audio := audio ?b @ items_audio xs,
            transcripts := transcripts ?b @ items_transcripts xs\<rparr>)\<rparr>, [])"
    using assms one by (intro appends_existing) auto
  show ?thesis using step rest by (simp add: x del: fun_upd_apply)
qed





text \<open>
  C10 (flushed-request construction). Flushing a non-empty batch removes it and emits one
  request. When at least one transcription result was accumulated, its transcript field
  is the results' texts without the empty ones, joined by single spaces, and it carries
  the results in order; its audio field is present exactly when at least one audio chunk
  was accumulated, and is then the concatenation of the chunks in append order. A run of
  appends that fills a new batch to \<open>maxBatchSize\<close> flushes exactly the appended items.
\<close>

theorem flushed_request_construction:
  "batchMap st sid = Some b \<and> \<not> (audio b = [] \<and> transcripts b = []) \<longrightarrow>
     batchMap (fst (processBatch now sid st)) sid = None \<and>
     (\<exists>q. requests (snd (processBatch now sid st)) = [q] \<and>
        q_sessionId q = sid \<and>
        (transcripts b \<noteq> [] \<longrightarrow>
           q_transcript q = Some (join '' '' (filter (\<lambda>t. t \<noteq> []) (map transcript (transcripts b)))) \<and>
           q_transcriptionResults q = Some (transcripts b)) \<and>
        (transcripts b = [] \<longrightarrow> q_transcript q = None \<and> q_transcriptionResults q = None) \<and>
        (q_audio q \<noteq> None \<longleftrightarrow> audio b \<noteq> []) \<and>
        (audio b \<noteq> [] \<longrightarrow> q_audio q = Some (concat (audio b))))"
  by (cases "timer b"; cases "llmHandler st")
     (auto simp: processBatch_def build_request_def Let_def)

text \<open>
  Witness of C10: a batch of the audio chunks \<open>[1, 2]\<close> and \<open>[3]\<close> and the results
  \<open>hello\<close>, the empty text and \<open>world\<close> is flushed into the request with audio
  \<open>[1, 2, 3]\<close> and transcript \<open>hello world\<close>.
\<close>

theorem flushed_request_construction_witness:
  "requests (snd (processBatch 900 ''s1''
     (fst (appends ''s1''
        [(100, AudioItem [1, 2]), (200, TranscriptItem (mk_result ''hello'')),
         (300, TranscriptItem (mk_result '''')), (400, AudioItem [3]),
         (500, TranscriptItem (mk_result ''world''))]
        (new_llm_processor (both_options None)))))) =
   [\<lparr>q_sessionId = ''s1'', q_timestamp = 900, q_audio = Some [1, 2, 3],
     q_transcript = Some ''hello world'',
     q_transcriptionResults = Some [mk_result ''hello'', mk_result '''', mk_result ''world''],
     q_metadata = []\<rparr>]"
proof -
  let ?st0 = "new_llm_processor (both_options None)"
  let ?xs = "[(100, AudioItem [1, 2]), (200, TranscriptItem (mk_result ''hello'')),
         (300, TranscriptItem (mk_result '''')), (400, AudioItem [3]),
         (500, TranscriptItem (mk_result ''world''))]"
  let ?b = "\<lparr>audio = [[1, 2], [3]],
             transcripts = [mk_result ''hello'', mk_result '''', mk_result ''world''],
             b_metadata = [], timer = Some \<lparr>armed_at = 100, delay = 5000\<rparr>\<rparr>"
  have o: "\<forall>y \<in> set ?xs. included (options ?st0) (snd y)"
    "batchMap ?st0 ''s1'' = None" "int (length ?xs) < maxBatchSize (options ?st0)"
    "batchTimeout (options ?st0) = 5000"
    by (simp_all add: new_llm_processor_def both_options_def)
  define st1 where "st1 = fst (appends ''s1'' ?xs ?st0)"
  have b: "batchMap st1 ''s1'' = Some ?b"
    unfolding st1_def using appends_fresh[OF o(1-3)] o(4) by simp
  from flushed_request_construction [of st1 "''s1''" ?b 900] b
  obtain q where q: "requests (snd (processBatch 900 ''s1'' st1)) = [q]"
    "q_sessionId q = ''s1''" "q_audio q = Some [1, 2, 3]" "q_transcript q = Some ''hello world''"
    "q_transcriptionResults q = Some [mk_result ''hello'', mk_result '''', mk_result ''world'']"
    by (auto simp: mk_result_def)
  have "q_timestamp q = 900 \<and> q_metadata q = []"
    using q(1) b by (cases "llmHandler st1") (auto simp: processBatch_def build_request_def Let_def)
  then have "requests (snd (processBatch 900 ''s1'' st1)) =
     [\<lparr>q_sessionId = ''s1'', q_timestamp = 900, q_audio = Some [1, 2, 3],
       q_transcript = Some ''hello world'',
       q_transcriptionResults = Some [mk_result ''hello'', mk_result '''', mk_result ''world''],
       q_metadata = []\<rparr>]"
    using q by (cases q) simp
  then show ?thesis unfolding st1_def .
qed

section \<open>Properties of the session orchestrator\<close>

subsection \<open>Dispatch\<close>

lemma processAudioBuffer_none:
  "buffered st s = [] \<or> connections (wsManager st) s = None \<Longrightarrow>
   processAudioBuffer s org st = (st, [], None)"
  by (auto simp: processAudioBuffer_def buffered_def getConnection_def split: option.splits)

lemma processAudioBuffer_some:
  "buffered st s \<noteq> [] \<Longrightarrow> connections (wsManager st) s = Some conn \<Longrightarrow>
   processAudioBuffer s org st =
     (st\<lparr>sessionBuffers := (sessionBuffers st)(s \<mapsto> []),
         calls := calls st @ [\<lparr>call_id = next_call st, call_session = s,
                               payload = concat (buffered st s), call_metadata = metadata conn,
                               origin = org\<rparr>],
         next_call := next_call st + 1\<rparr>,
      [ProcessAudio (next_call st) s (concat (buffered st s)) (metadata conn)],
      Some (next_call st))"
  by (auto simp: processAudioBuffer_def buffered_def getConnection_def Let_def split: option.splits)

subsection \<open>Sessions that a step leaves alone\<close>

lemma same_connection_refl: "same_connection a a"
  by (simp add: same_connection_def)

lemma same_connection_trans: "same_connection a b \<Longrightarrow> same_connection b c \<Longrightarrow> same_connection a c"
  by (simp add: same_connection_def)

lemma same_connection_None: "same_connection a b \<Longrightarrow> (a = None) = (b = None)"
  by (cases a; cases b) (simp_all add: same_connection_def)

lemma same_connection_fields:
  assumes "same_connection (Some c) (Some c')"
  shows "metadata c = metadata c'" "ws c = ws c'" "userId c = userId c'" "paused c = paused c'"
proof -
  have e: "c\<lparr>lastActivity := 0\<rparr> = c'\<lparr>lastActivity := 0\<rparr>"
    using assms by (simp add: same_connection_def)
  show m: "metadata c = metadata c'" using arg_cong[OF e, of metadata] by simp
  show "ws c = ws c'" using arg_cong[OF e, of ws] by simp
  show "userId c = userId c'" using arg_cong[OF e, of userId] by simp
  show "paused c = paused c'" using m by (simp add: paused_def)
qed

lemma same_connection_touch: "same_connection (Some (c\<lparr>lastActivity := t\<rparr>)) (Some c)"
  by (simp add: same_connection_def)

lemma same_connection_paused:
  assumes "same_connection a b"
  shows "(case a of None \<Rightarrow> False | Some c \<Rightarrow> paused c) =
         (case b of None \<Rightarrow> False | Some c \<Rightarrow> paused c)"
proof (cases a)
  case None
  then have "b = None" using same_connection_None[OF assms] by simp
  then show ?thesis using None by simp
next
  case (Some c)
  then obtain c' where b: "b = Some c'" using same_connection_None[OF assms] by (cases b) auto
  have "paused c = paused c'" using assms unfolding Some b by (rule same_connection_fields(4))
  then show ?thesis using Some b by simp
qed

lemma same_session_refl: "same_session sid st st"
  by (simp add: same_session_def same_connection_refl)

lemma same_session_trans:
  "same_session sid st st1 \<Longrightarrow> same_session sid st1 st2 \<Longrightarrow> same_session sid st st2"
  using same_connection_trans[of "connections (wsManager st2) sid" "connections (wsManager st1) sid"
      "connections (wsManager st) sid"]
  by (simp add: same_session_def)

lemma same_session_quiet: "same_session sid st st' \<Longrightarrow> quiet st' sid = quiet st sid"
  by (simp add: same_session_def quiet_def split: option.splits)

lemma same_session_buffered: "same_session sid st st' \<Longrightarrow> buffered st' sid = buffered st sid"
  by (simp add: same_session_def buffered_def)

lemma same_session_outstanding: "same_session sid st st' \<Longrightarrow> outstanding st' sid = outstanding st sid"
  by (simp add: same_session_def)

lemma same_session_registered:
  "same_session sid st st' \<Longrightarrow>
   (connections (wsManager st') sid = None) = (connections (wsManager st) sid = None)"
  using same_connection_None[of "connections (wsManager st') sid" "connections (wsManager st) sid"]
  by (simp add: same_session_def)

lemma same_session_paused: "same_session sid st st' \<Longrightarrow> is_paused st' sid = is_paused st sid"
  unfolding is_paused_def
  using same_connection_paused[of "connections (wsManager st') sid" "connections (wsManager st) sid"]
  by (simp add: same_session_def)

lemma same_session_guarded: "same_session sid st st' \<Longrightarrow> guarded st' sid i = guarded st sid i"
  using same_session_quiet[of sid st st'] same_session_registered[of sid st st']
  by (auto simp: guarded_def same_session_def)

lemma same_session_idle: "same_session sid st st' \<Longrightarrow> idle st' sid = idle st sid"
  using same_session_quiet[of sid st st'] same_session_registered[of sid st st']
  by (auto simp: idle_def same_session_def)

subsection \<open>Messages to the client\<close>

lemma sendMessage_sent:
  "fst (sendMessage rs now s r) =
     (case connections r s of None \<Rightarrow> False | Some conn \<Rightarrow> rs (ws conn) = 1)"
  by (simp add: sendMessage_def split: option.splits)

lemma sendMessage_same:
  "same_connection (connections (snd (sendMessage rs now s r)) x) (connections r x)"
  by (auto simp: sendMessage_def same_connection_refl same_connection_touch split: option.splits)

lemma send_unfold:
  "send now s msg st =
     (st\<lparr>wsManager := snd (sendMessage (sockets st) now s (wsManager st))\<rparr>,
      if open_connection st s then [SendMessage s msg] else [])"
  using sendMessage_sent[of "sockets st" now s "wsManager st"]
  by (simp add: send_def open_connection_def case_prod_unfold)

lemma registry_update_same_session:
  "same_connection (connections r sid) (connections (wsManager st) sid) \<Longrightarrow>
   same_session sid st (st\<lparr>wsManager := r\<rparr>)"
  by (simp add: same_session_def outstanding_def waiters_def)

lemma send_same:
  assumes "send now s msg st = (st', es)"
  shows "st' = st\<lparr>wsManager := wsManager st'\<rparr>"
    and "same_connection (connections (wsManager st') x) (connections (wsManager st) x)"
    and "same_session sid st st'"
    and "es = (if open_connection st s then [SendMessage s msg] else [])"
    and "\<not> list_ex (is_dispatch sid) es"
proof -
  have e: "st' = st\<lparr>wsManager := snd (sendMessage (sockets st) now s (wsManager st))\<rparr>"
    "es = (if open_connection st s then [SendMessage s msg] else [])"
    using assms unfolding send_unfold by simp_all
  show "st' = st\<lparr>wsManager := wsManager st'\<rparr>" by (subst (1 2) e(1)) simp
  show "same_connection (connections (wsManager st') x) (connections (wsManager st) x)"
    by (subst e(1)) (simp add: sendMessage_same)
  show "same_session sid st st'"
    by (subst e(1)) (rule registry_update_same_session[OF sendMessage_same])
  show "es = (if open_connection st s then [SendMessage s msg] else [])" by (rule e(2))
  show "\<not> list_ex (is_dispatch sid) es" by (simp add: e(2))
qed

lemma send_fields:
  assumes "send now s msg st = (st', es)"
  shows "calls st' = calls st" "waiting st' = waiting st" "processingQueue st' = processingQueue st"
    "sessionBuffers st' = sessionBuffers st" "next_call st' = next_call st"
    "llmProcessor st' = llmProcessor st" "managerOptions st' = managerOptions st"
    "sockets st' = sockets st"
  by (subst send_same(1)[OF assms], simp)+

lemma registry_only_trans:
  "st1 = st\<lparr>wsManager := r1\<rparr> \<Longrightarrow> st2 = st1\<lparr>wsManager := r2\<rparr> \<Longrightarrow>
   st2 = st\<lparr>wsManager := wsManager st2\<rparr>"
  by simp

lemma acknowledge_same:
  "acknowledge now sids st = (st', es) \<Longrightarrow>
   st' = st\<lparr>wsManager := wsManager st'\<rparr> \<and> same_session sid st st' \<and>
   \<not> list_ex (is_dispatch sid) es \<and> filter is_result_effect es = []"
proof (induction sids arbitrary: st st' es)
  case Nil
  then show ?case by (simp add: same_session_refl)
next
  case (Cons s sids)
  obtain st1 e1 where s: "send now s (RecordingStopped now) st = (st1, e1)"
    by (cases "send now s (RecordingStopped now) st") auto
  obtain st2 e2 where a: "acknowledge now sids st1 = (st2, e2)"
    by (cases "acknowledge now sids st1") auto
  have eq: "st' = st2" "es = e1 @ e2" using Cons.prems s a by auto
  note ih = Cons.IH[OF a]
  have i1: "st2 = st1\<lparr>wsManager := wsManager st2\<rparr>" using ih by simp
  have 1: "st2 = st\<lparr>wsManager := wsManager st2\<rparr>"
    by (rule registry_only_trans[OF send_same(1)[OF s] i1])
  have 2: "filter is_result_effect e1 = []" by (simp add: send_same(4)[OF s])
  have 3: "same_session sid st st2"
    using send_same(3)[OF s, of sid] ih by (auto intro: same_session_trans)
  have 4: "\<not> list_ex (is_dispatch sid) (e1 @ e2)"
    using send_same(5)[OF s, of sid] ih by simp
  have 5: "filter is_result_effect (e1 @ e2) = []" using 2 ih by simp
  show ?case unfolding eq using 1 3 4 5 by blast
qed

subsection \<open>Dispatches for another session\<close>

lemma processAudioBuffer_other:
  assumes "s \<noteq> sid" "processAudioBuffer s org st = (st', es, r)"
  shows "same_session sid st st'" "\<not> list_ex (is_dispatch sid) es"
  using assms
  by (auto simp: processAudioBuffer_def same_session_def same_connection_refl outstanding_def
      waiters_def Let_def split: option.splits if_splits)

lemma processAudioBuffer_keeps:
  assumes "processAudioBuffer s org st = (st', es, r)"
  shows "waiting st' = waiting st \<and> processingQueue st' = processingQueue st \<and>
    wsManager st' = wsManager st \<and> llmProcessor st' = llmProcessor st \<and>
    managerOptions st' = managerOptions st \<and> sockets st' = sockets st \<and>
    (fresh_ids st \<longrightarrow> fresh_ids st') \<and> filter is_result_effect es = []"
proof (cases r)
  case None
  then have "st' = st \<and> es = []" using assms
    by (auto simp: processAudioBuffer_def Let_def split: option.splits if_splits)
  then show ?thesis by simp
next
  case (Some i)
  then obtain c where "st' = st\<lparr>sessionBuffers := (sessionBuffers st)(s \<mapsto> []),
         calls := calls st @ [c], next_call := next_call st + 1\<rparr>" "call_id c = next_call st"
     "\<exists>d m. es = [ProcessAudio (next_call st) s d m]"
    using assms
    by (auto simp: processAudioBuffer_def Let_def split: option.splits if_splits)
  then show ?thesis by (auto simp: fresh_ids_def less_Suc_eq)
qed

lemma drain_other:
  assumes "s \<noteq> sid" "drain s st = (st', es, r)"
  shows "same_session sid st st'" "\<not> list_ex (is_dispatch sid) es"
proof -
  obtain r' where "processAudioBuffer s FromBufferedAudio st = (st', es, r')"
    using assms(2) by (auto simp: drain_def split: prod.splits option.splits)
  from processAudioBuffer_other[OF assms(1) this]
  show "same_session sid st st'" "\<not> list_ex (is_dispatch sid) es"
    by auto
qed

lemma drain_keeps:
  assumes "drain s st = (st', es, r)"
  shows "waiting st' = waiting st \<and> processingQueue st' = processingQueue st \<and>
    wsManager st' = wsManager st \<and> llmProcessor st' = llmProcessor st \<and>
    managerOptions st' = managerOptions st \<and> sockets st' = sockets st \<and>
    (fresh_ids st \<longrightarrow> fresh_ids st') \<and> filter is_result_effect es = []"
proof -
  obtain r' where "processAudioBuffer s FromBufferedAudio st = (st', es, r')"
    using assms by (auto simp: drain_def split: prod.splits option.splits)
  from processAudioBuffer_keeps[OF this] show ?thesis .
qed

lemma resume_waiting_keeps:
  "resume_waiting i rest st = (st', es, acks) \<Longrightarrow>
   waiting st' = waiting st \<and> processingQueue st' = processingQueue st \<and>
   wsManager st' = wsManager st \<and> llmProcessor st' = llmProcessor st \<and>
   managerOptions st' = managerOptions st \<and> sockets st' = sockets st \<and>
   (fresh_ids st \<longrightarrow> fresh_ids st') \<and> filter is_result_effect es = []"
proof (induction rest arbitrary: st st' es acks)
  case Nil
  then show ?case by simp
next
  case (Cons w rest)
  obtain j s where w: "w = (j, s)" by (cases w)
  show ?case
  proof (cases "j = i")
    case False
    then show ?thesis using Cons w by simp
  next
    case True
    obtain st1 e1 f where d: "drain s st = (st1, e1, f)" by (cases "drain s st") auto
    obtain st2 e2 a2 where r: "resume_waiting i rest st1 = (st2, e2, a2)"
      by (cases "resume_waiting i rest st1") auto
    have eq: "st' = st2" "es = e1 @ e2"
      using Cons.prems w True d r by auto
    from Cons.IH[OF r] drain_keeps[OF d] show ?thesis unfolding eq by auto
  qed
qed

lemma resume_waiting_other:
  "resume_waiting i rest st = (st', es, acks) \<Longrightarrow>
   \<forall>w \<in> set rest. fst w = i \<longrightarrow> snd w \<noteq> sid \<Longrightarrow>
   same_session sid st st' \<and> \<not> list_ex (is_dispatch sid) es"
proof (induction rest arbitrary: st st' es acks)
  case Nil
  then show ?case by (simp add: same_session_refl)
next
  case (Cons w rest)
  obtain j s where w: "w = (j, s)" by (cases w)
  show ?case
  proof (cases "j = i")
    case False
    then show ?thesis using Cons w by simp
  next
    case True
    then have s: "s \<noteq> sid" using Cons.prems(2) w by auto
    obtain st1 e1 f where d: "drain s st = (st1, e1, f)" by (cases "drain s st") auto
    obtain st2 e2 a2 where r: "resume_waiting i rest st1 = (st2, e2, a2)"
      by (cases "resume_waiting i rest st1") auto
    have eq: "st' = st2" "es = e1 @ e2"
      using Cons.prems w True d r by auto
    have ih: "same_session sid st1 st2 \<and> \<not> list_ex (is_dispatch sid) e2"
      using Cons.IH[OF r] Cons.prems(2) by simp
    from ih drain_other[OF s d] show ?thesis unfolding eq
      by (auto intro: same_session_trans)
  qed
qed

subsection \<open>The batch processor inside the server\<close>

lemma forward_no_dispatch:
  "\<not> list_ex (is_dispatch sid) (concat (map forward es))"
proof (induction es)
  case Nil
  then show ?case by simp
next
  case (Cons e es)
  then show ?case by (cases e) auto
qed

lemma with_llm_keeps:
  assumes "with_llm f st = (st', es)"
  shows "st' = st\<lparr>llmProcessor := llmProcessor st'\<rparr> \<and> \<not> list_ex (is_dispatch sid) es"
  using assms forward_no_dispatch[of sid]
  by (auto simp: with_llm_def split: option.splits prod.splits)

lemma llm_update_same_session: "same_session sid st (st\<lparr>llmProcessor := p\<rparr>)"
  by (simp add: same_session_def same_connection_refl outstanding_def waiters_def)

lemma llm_update_fresh: "fresh_ids (st\<lparr>llmProcessor := p\<rparr>) = fresh_ids st"
  by (simp add: fresh_ids_def)

lemma with_llm_same:
  assumes "with_llm f st = (st', es)"
  shows "same_session sid st st'" "fresh_ids st' = fresh_ids st"
    "calls st' = calls st" "waiting st' = waiting st" "processingQueue st' = processingQueue st"
    "wsManager st' = wsManager st" "sessionBuffers st' = sessionBuffers st"
    "next_call st' = next_call st" "managerOptions st' = managerOptions st"
    "sockets st' = sockets st"
proof -
  have e: "st' = st\<lparr>llmProcessor := llmProcessor st'\<rparr>" using with_llm_keeps[OF assms] by simp
  show "same_session sid st st'" by (subst e) (rule llm_update_same_session)
  show "fresh_ids st' = fresh_ids st" by (subst e) (rule llm_update_fresh)
  show "calls st' = calls st" by (subst e) simp
  show "waiting st' = waiting st" by (subst e) simp
  show "processingQueue st' = processingQueue st" by (subst e) simp
  show "wsManager st' = wsManager st" by (subst e) simp
  show "sessionBuffers st' = sessionBuffers st" by (subst e) simp
  show "next_call st' = next_call st" by (subst e) simp
  show "managerOptions st' = managerOptions st" by (subst e) simp
  show "sockets st' = sockets st" by (subst e) simp
qed

subsection \<open>Turns of another session\<close>

lemma handleAudioData_ignored:
  "connections (wsManager st) s = None \<or>
   (\<exists>conn. connections (wsManager st) s = Some conn \<and> paused conn) \<or>
   sessionBuffers st s = None \<Longrightarrow>
   handleAudioData now s d st = (st, [])"
  by (auto simp: handleAudioData_def getConnection_def split: option.splits)

lemma handleAudioData_accepted:
  assumes "connections (wsManager st) s = Some conn" "\<not> paused conn"
    "sessionBuffers st s = Some buffer"
    "with_llm (processAudioChunk now (chunk_of now s d conn))
       (st\<lparr>sessionBuffers := (sessionBuffers st)(s \<mapsto> buffer @ [d])\<rparr>) = (st2, e2)"
  shows "handleAudioData now s d st =
     (if processingQueue st2 s = None then
        (case processAudioBuffer s FromAudioData st2 of
           (st3, e3, r) \<Rightarrow>
             (st3\<lparr>processingQueue := (processingQueue st3)(s := r)\<rparr>,
              [Emit (AudioChunkEvent (chunk_of now s d conn))] @ e2 @ e3))
      else (st2, [Emit (AudioChunkEvent (chunk_of now s d conn))] @ e2))"
  using assms
  by (auto simp: handleAudioData_def getConnection_def Let_def
      split: option.splits prod.splits)

lemma handleAudioData_other:
  assumes "s \<noteq> sid" "handleAudioData now s d st = (st', es)"
  shows "same_session sid st st' \<and> \<not> list_ex (is_dispatch sid) es"
proof (cases "connections (wsManager st) s = None \<or>
   (\<exists>conn. connections (wsManager st) s = Some conn \<and> paused conn) \<or>
   sessionBuffers st s = None")
  case True
  then show ?thesis using assms(2) handleAudioData_ignored[OF True, of now d]
    by (simp add: same_session_refl)
next
  case False
  then obtain conn buffer where c: "connections (wsManager st) s = Some conn" "\<not> paused conn"
    "sessionBuffers st s = Some buffer" by auto
  let ?st1 = "st\<lparr>sessionBuffers := (sessionBuffers st)(s \<mapsto> buffer @ [d])\<rparr>"
  let ?chunk = "chunk_of now s d conn"
  obtain st2 e2 where l: "with_llm (processAudioChunk now ?chunk) ?st1 = (st2, e2)"
    by (cases "with_llm (processAudioChunk now ?chunk) ?st1") auto
  have s1: "same_session sid st ?st1" using assms(1)
    by (simp add: same_session_def same_connection_refl outstanding_def waiters_def)
  have s2: "same_session sid st st2" using s1 with_llm_same(1)[OF l] by (rule same_session_trans)
  have n2: "\<not> list_ex (is_dispatch sid) e2"
    using with_llm_keeps[OF l] by simp
  note h = handleAudioData_accepted[OF c l]
  show ?thesis
  proof (cases "processingQueue st2 s = None")
    case False
    then have "st' = st2 \<and> es = [Emit (AudioChunkEvent ?chunk)] @ e2"
      using assms(2) h by auto
    then show ?thesis using s2 n2 by simp
  next
    case True
    obtain st3 e3 r where p: "processAudioBuffer s FromAudioData st2 = (st3, e3, r)"
      by (cases "processAudioBuffer s FromAudioData st2") auto
    have s3: "same_session sid st st3"
      using s2 processAudioBuffer_other(1)[OF assms(1) p] by (rule same_session_trans)
    have "st' = st3\<lparr>processingQueue := (processingQueue st3)(s := r)\<rparr> \<and>
          es = [Emit (AudioChunkEvent ?chunk)] @ e2 @ e3"
      using assms(2) h True p by simp
    moreover have "same_session sid st3 (st3\<lparr>processingQueue := (processingQueue st3)(s := r)\<rparr>)"
      using assms(1) by (simp add: same_session_def same_connection_refl outstanding_def waiters_def)
    ultimately show ?thesis
      using s3 n2 processAudioBuffer_other(2)[OF assms(1) p]
      by (auto intro: same_session_trans)
  qed
qed

lemma set_metadata_other:
  "s \<noteq> sid \<Longrightarrow> same_session sid st (set_metadata s conn m st)"
  by (simp add: same_session_def same_connection_refl set_metadata_def outstanding_def waiters_def)

lemma processBufferedAudio_other:
  assumes "s \<noteq> sid" "processBufferedAudio s st = (st', es, f)"
  shows "same_session sid st st' \<and> \<not> list_ex (is_dispatch sid) es"
proof (cases "processingQueue st s")
  case None
  then have "drain s st = (st', es, f)" using assms(2) by (simp add: processBufferedAudio_def)
  from drain_other[OF assms(1) this] show ?thesis by simp
next
  case (Some i)
  then have "st' = st\<lparr>waiting := waiting st @ [(i, s)]\<rparr> \<and> es = []"
    using assms(2) by (simp add: processBufferedAudio_def)
  then show ?thesis using assms(1)
    by (simp add: same_session_def same_connection_refl outstanding_def waiters_def)
qed

lemma handleControlMessage_stop:
  assumes "connections (wsManager st) s = Some conn"
    "processBufferedAudio s
       (set_metadata s conn ((spread (metadata conn))\<lparr>isRecording := Some False\<rparr>) st) = (st1, e1, f)"
    "send now s (RecordingStopped now) st1 = (st2, e2)"
  shows "handleControlMessage now s StopRecording st = (if f then (st2, e1 @ e2) else (st1, e1))"
  using assms by (cases f) (simp_all add: handleControlMessage_def getConnection_def)

lemma handleControlMessage_other:
  assumes "s \<noteq> sid" "handleControlMessage now s msg st = (st', es)"
  shows "same_session sid st st' \<and> \<not> list_ex (is_dispatch sid) es"
proof (cases "connections (wsManager st) s")
  case None
  then show ?thesis using assms by (simp add: handleControlMessage_def getConnection_def same_session_refl)
next
  case (Some conn)
  have via_send: "same_session sid st st' \<and> \<not> list_ex (is_dispatch sid) es"
    if "send now s m (set_metadata s conn md st) = (st', es)" for m md
    using send_same(3,5)[OF that, of sid] set_metadata_other[OF assms(1), of st conn md]
    by (auto intro: same_session_trans)
  show ?thesis
  proof (cases msg)
    case Ping
    then have "send now s Pong st = (st', es)"
      using assms(2) Some by (simp add: handleControlMessage_def getConnection_def)
    from send_same(3,5)[OF this, of sid] show ?thesis by simp
  next
    case Unknown
    then show ?thesis using assms(2) Some
      by (simp add: handleControlMessage_def getConnection_def same_session_refl)
  next
    case StartRecording
    then show ?thesis using assms(2) Some
      by (intro via_send) (simp add: handleControlMessage_def getConnection_def)
  next
    case PauseRecording
    then show ?thesis using assms(2) Some
      by (intro via_send) (simp add: handleControlMessage_def getConnection_def)
  next
    case ResumeRecording
    then show ?thesis using assms(2) Some
      by (intro via_send) (simp add: handleControlMessage_def getConnection_def)
  next
    case StopRecording
    let ?st0 = "set_metadata s conn ((spread (metadata conn))\<lparr>isRecording := Some False\<rparr>) st"
    obtain st1 e1 f where p: "processBufferedAudio s ?st0 = (st1, e1, f)"
      by (cases "processBufferedAudio s ?st0") auto
    obtain st2 e2 where a: "send now s (RecordingStopped now) st1 = (st2, e2)"
      by (cases "send now s (RecordingStopped now) st1") auto
    have r: "st' = (if f then st2 else st1) \<and> es = (if f then e1 @ e2 else e1)"
      using assms(2) handleControlMessage_stop[OF Some p a] StopRecording by (cases f) simp_all
    have s1: "same_session sid st st1"
      using processBufferedAudio_other[OF assms(1) p] set_metadata_other[OF assms(1), of st conn]
      by (auto intro: same_session_trans)
    have s2: "same_session sid st st2"
      using s1 send_same(3)[OF a, of sid] by (rule same_session_trans)
    show ?thesis
      using r s1 s2 processBufferedAudio_other[OF assms(1) p] send_same(5)[OF a, of sid] by simp
  qed
qed

lemma handleConnection_other:
  assumes "p_sessionId params \<noteq> sid" "handleConnection now params st = (st', es)"
  shows "same_session sid st st' \<and> \<not> list_ex (is_dispatch sid) es"
proof -
  obtain added r e where a: "addConnection (managerOptions st) now params (wsManager st) = (added, r, e)"
    by (cases "addConnection (managerOptions st) now params (wsManager st)") auto
  have c: "connections r sid = connections (wsManager st) sid"
    using a assms(1) by (auto simp: addConnection_def Let_def split: if_splits option.splits)
  have n: "\<not> list_ex (is_dispatch sid) (map Manager e)"
    by (induction e) auto
  show ?thesis using assms a c n
    by (auto simp: handleConnection_def same_session_def same_connection_refl outstanding_def
        waiters_def split: if_splits)
qed

lemma removeConnection_other:
  "s \<noteq> sid \<Longrightarrow> connections (fst (removeConnection s r)) sid = connections r sid"
  by (auto simp: removeConnection_def Let_def split: option.splits)

lemma handleDisconnection_absent:
  "connections (wsManager st) s = None \<Longrightarrow> handleDisconnection now s reason st = (st, [])"
  by (simp add: handleDisconnection_def getConnection_def)

lemma socket_closed_eq:
  "socket_closed now s reason st =
     (st\<lparr>wsManager := fst (removeConnection s (wsManager st))\<rparr>,
      map Manager (snd (removeConnection s (wsManager st))))"
proof -
  obtain r e where r: "removeConnection s (wsManager st) = (r, e)"
    by (cases "removeConnection s (wsManager st)") auto
  have "connections r s = None" using removeConnection_clears[of s "wsManager st"] r by simp
  then show ?thesis using r
    by (simp add: socket_closed_def handleDisconnection_absent)
qed

lemma socket_closed_other:
  assumes "s \<noteq> sid" "socket_closed now s reason st = (st', es)"
  shows "same_session sid st st' \<and> \<not> list_ex (is_dispatch sid) es"
proof -
  have n: "\<not> list_ex (is_dispatch sid) (map Manager e)" for e
    by (induction e) auto
  show ?thesis
    using assms removeConnection_other[OF assms(1), of "wsManager st"] n
    by (auto simp: socket_closed_eq same_session_def same_connection_refl outstanding_def waiters_def)
qed

subsection \<open>Completion of a call\<close>

lemma registry_llm_only:
  "st1 = st\<lparr>wsManager := r\<rparr> \<Longrightarrow> st2 = st1\<lparr>llmProcessor := p\<rparr> \<Longrightarrow>
   st2 = st\<lparr>wsManager := wsManager st2, llmProcessor := llmProcessor st2\<rparr>"
  by simp

lemma processAudioBuffer_resumed_keeps:
  assumes "processAudioBuffer_resumed now c out st = (st', es)"
  shows "st' = st\<lparr>wsManager := wsManager st', llmProcessor := llmProcessor st'\<rparr>"
    and "same_connection (connections (wsManager st') x) (connections (wsManager st) x)"
    and "same_session sid st st'"
    and "\<not> list_ex (is_dispatch sid) es"
    and "sockets st' = sockets st"
proof -
  have "st' = st\<lparr>wsManager := wsManager st', llmProcessor := llmProcessor st'\<rparr> \<and>
    same_connection (connections (wsManager st') x) (connections (wsManager st) x) \<and>
    same_session sid st st' \<and> \<not> list_ex (is_dispatch sid) es \<and> sockets st' = sockets st"
  proof (cases "\<exists>result. out = Resolved result \<and> transcript result \<noteq> []")
    case False
    then have "st' = st \<and> (es = [] \<or> (\<exists>err. es = [Emit (ErrorEvent (call_session c) err)]))"
      using assms by (cases out) (auto simp: processAudioBuffer_resumed_def)
    then show ?thesis by (auto simp: same_session_refl same_connection_refl)
  next
    case True
    then obtain result where o: "out = Resolved result" "transcript result \<noteq> []" by blast
    obtain st1 e1 where s: "send now (call_session c) (TranscriptionMessage result) st = (st1, e1)"
      by (cases "send now (call_session c) (TranscriptionMessage result) st") auto
    obtain st2 e2 where l: "with_llm (processTranscription now (call_session c) result) st1 = (st2, e2)"
      by (cases "with_llm (processTranscription now (call_session c) result) st1") auto
    have r: "st' = st2" "es = e1 @ [Emit (TranscriptionEvent (call_session c) result)] @ e2"
      using assms o s l by (simp_all add: processAudioBuffer_resumed_def)
    have k: "st2 = st1\<lparr>llmProcessor := llmProcessor st2\<rparr>" using with_llm_keeps[OF l] by simp
    have 1: "st2 = st\<lparr>wsManager := wsManager st2, llmProcessor := llmProcessor st2\<rparr>"
      by (rule registry_llm_only[OF send_same(1)[OF s] k])
    have 2: "same_connection (connections (wsManager st2) x) (connections (wsManager st) x)"
      using send_same(2)[OF s, of x] with_llm_same(6)[OF l] by simp
    have 3: "same_session sid st st2"
      using send_same(3)[OF s, of sid] with_llm_same(1)[OF l, of sid] by (rule same_session_trans)
    have 4: "\<not> list_ex (is_dispatch sid) (e1 @ [Emit (TranscriptionEvent (call_session c) result)] @ e2)"
      using send_same(5)[OF s, of sid] with_llm_keeps[OF l, of sid] by simp
    have 5: "sockets st2 = sockets st" using send_fields(8)[OF s] with_llm_same(10)[OF l] by simp
    show ?thesis unfolding r using 1 2 3 4 5 by blast
  qed
  then show "st' = st\<lparr>wsManager := wsManager st', llmProcessor := llmProcessor st'\<rparr>"
    and "same_connection (connections (wsManager st') x) (connections (wsManager st) x)"
    and "same_session sid st st'"
    and "\<not> list_ex (is_dispatch sid) es"
    and "sockets st' = sockets st"
    by blast+
qed

lemma find_call_Some:
  "find_call i cs = Some c \<Longrightarrow> c \<in> set cs \<and> call_id c = i"
  by (induction cs) (auto split: if_splits)

lemma find_call_None:
  "find_call i cs = None \<Longrightarrow> i \<notin> call_id ` set cs"
  by (induction cs) (auto split: if_splits)

lemma filter_calls_fresh:
  "fresh_ids st \<Longrightarrow> fresh_ids (st\<lparr>calls := filter P (calls st)\<rparr>)"
  by (auto simp: fresh_ids_def distinct_map_filter)

text \<open>
  The state in which the continuations of a completed call run: the call is gone and
  \<open>processAudioBuffer\<close> has finished, which touches the batch processor and the time of
  the last activity of the session's connection only.
\<close>

lemma call_completed_unfold:
  assumes "find_call i (calls st) = Some c"
  obtains st1 e1 where
    "processAudioBuffer_resumed now c out (st\<lparr>calls := filter (\<lambda>c'. call_id c' \<noteq> i) (calls st)\<rparr>) = (st1, e1)"
    "st1 = st\<lparr>calls := filter (\<lambda>c'. call_id c' \<noteq> i) (calls st), wsManager := wsManager st1,
              llmProcessor := llmProcessor st1\<rparr>"
    "\<forall>x. same_connection (connections (wsManager st1) x) (connections (wsManager st) x)"
    "call_completed now i out st =
       (case origin c of
          FromAudioData \<Rightarrow>
            (case resume_waiting i (waiting st)
                    (st1\<lparr>processingQueue := (processingQueue st)(call_session c := None),
                         waiting := filter (\<lambda>w. fst w \<noteq> i) (waiting st)\<rparr>) of
               (st3, e3, acks) \<Rightarrow>
                 (case acknowledge now acks st3 of (st4, e4) \<Rightarrow> (st4, e1 @ e3 @ e4)))
        | FromBufferedAudio \<Rightarrow>
            (case send now (call_session c) (RecordingStopped now) st1 of
               (st2, e2) \<Rightarrow> (st2, e1 @ e2)))"
    "\<not> list_ex (is_dispatch sid) e1"
proof -
  let ?st0 = "st\<lparr>calls := filter (\<lambda>c'. call_id c' \<noteq> i) (calls st)\<rparr>"
  obtain st1 e1 where r: "processAudioBuffer_resumed now c out ?st0 = (st1, e1)"
    by (cases "processAudioBuffer_resumed now c out ?st0") auto
  note k = processAudioBuffer_resumed_keeps[OF r]
  have w: "waiting st1 = waiting st" "processingQueue st1 = processingQueue st"
    by (subst k(1), simp)+
  have u: "call_completed now i out st =
       (case origin c of
          FromAudioData \<Rightarrow>
            (case resume_waiting i (waiting st)
                    (st1\<lparr>processingQueue := (processingQueue st)(call_session c := None),
                         waiting := filter (\<lambda>w. fst w \<noteq> i) (waiting st)\<rparr>) of
               (st3, e3, acks) \<Rightarrow>
                 (case acknowledge now acks st3 of (st4, e4) \<Rightarrow> (st4, e1 @ e3 @ e4)))
        | FromBufferedAudio \<Rightarrow>
            (case send now (call_session c) (RecordingStopped now) st1 of
               (st2, e2) \<Rightarrow> (st2, e1 @ e2)))"
    by (cases "origin c") (simp_all add: call_completed_def assms r w Let_def)
  have v: "st1 = st\<lparr>calls := filter (\<lambda>c'. call_id c' \<noteq> i) (calls st), wsManager := wsManager st1,
              llmProcessor := llmProcessor st1\<rparr>"
    using k(1) by simp
  have x: "\<forall>x. same_connection (connections (wsManager st1) x) (connections (wsManager st) x)"
    using k(2) by simp
  show ?thesis by (rule that[OF r v x u k(4)])
qed

lemma outstanding_filter_other:
  assumes "i \<notin> call_id ` set (outstanding st sid)"
  shows "filter (\<lambda>c. call_session c = sid) (filter (\<lambda>c'. call_id c' \<noteq> i) (calls st)) = outstanding st sid"
proof -
  have "filter (\<lambda>c. call_id c \<noteq> i \<and> call_session c = sid) (calls st) =
        filter (\<lambda>c. call_session c = sid) (calls st)"
    using assms by (intro filter_cong) (auto simp: outstanding_def)
  then show ?thesis by (simp add: outstanding_def)
qed

lemma waiters_filter_other:
  "\<forall>w \<in> set (waiters st sid). fst w \<noteq> i \<Longrightarrow>
   filter (\<lambda>w. snd w = sid) (filter (\<lambda>w. fst w \<noteq> i) (waiting st)) = waiters st sid"
  unfolding waiters_def by (auto simp: filter_id_conv intro!: filter_cong)

lemma call_completed_other:
  assumes "i \<notin> call_id ` set (outstanding st sid)" "\<forall>w \<in> set (waiters st sid). fst w \<noteq> i"
    and "call_completed now i out st = (st', es)"
  shows "same_session sid st st' \<and> \<not> list_ex (is_dispatch sid) es"
proof (cases "find_call i (calls st)")
  case None
  then show ?thesis using assms(3) by (simp add: call_completed_def same_session_refl)
next
  case (Some c)
  then have c: "c \<in> set (calls st)" "call_id c = i" using find_call_Some by auto
  then have cs: "call_session c \<noteq> sid" using assms(1) by (auto simp: outstanding_def)
  let ?st0 = "st\<lparr>calls := filter (\<lambda>c'. call_id c' \<noteq> i) (calls st)\<rparr>"
  obtain st1 e1 where u:
    "processAudioBuffer_resumed now c out ?st0 = (st1, e1)"
    "st1 = st\<lparr>calls := filter (\<lambda>c'. call_id c' \<noteq> i) (calls st), wsManager := wsManager st1,
              llmProcessor := llmProcessor st1\<rparr>"
    "\<forall>x. same_connection (connections (wsManager st1) x) (connections (wsManager st) x)"
    "call_completed now i out st =
       (case origin c of
          FromAudioData \<Rightarrow>
            (case resume_waiting i (waiting st)
                    (st1\<lparr>processingQueue := (processingQueue st)(call_session c := None),
                         waiting := filter (\<lambda>w. fst w \<noteq> i) (waiting st)\<rparr>) of
               (st3, e3, acks) \<Rightarrow>
                 (case acknowledge now acks st3 of (st4, e4) \<Rightarrow> (st4, e1 @ e3 @ e4)))
        | FromBufferedAudio \<Rightarrow>
            (case send now (call_session c) (RecordingStopped now) st1 of
               (st2, e2) \<Rightarrow> (st2, e1 @ e2)))"
    "\<not> list_ex (is_dispatch sid) e1"
    by (rule call_completed_unfold[OF Some, of now out sid])
  have s0: "same_session sid st ?st0"
    using outstanding_filter_other[OF assms(1)]
    by (simp add: same_session_def same_connection_refl outstanding_def waiters_def)
  have s1: "same_session sid st st1"
    using s0 processAudioBuffer_resumed_keeps(3)[OF u(1), of sid] by (rule same_session_trans)
  show ?thesis
  proof (cases "origin c")
    case FromBufferedAudio
    obtain st2 e2 where a: "send now (call_session c) (RecordingStopped now) st1 = (st2, e2)"
      by (cases "send now (call_session c) (RecordingStopped now) st1") auto
    have "st' = st2 \<and> es = e1 @ e2"
      using assms(3) u(4) FromBufferedAudio a by simp
    then show ?thesis
      using s1 u(5) send_same(3,5)[OF a, of sid] by (auto intro: same_session_trans)
  next
    case FromAudioData
    let ?st2 = "st1\<lparr>processingQueue := (processingQueue st)(call_session c := None),
                   waiting := filter (\<lambda>w. fst w \<noteq> i) (waiting st)\<rparr>"
    obtain st3 e3 acks where r: "resume_waiting i (waiting st) ?st2 = (st3, e3, acks)"
      by (cases "resume_waiting i (waiting st) ?st2") auto
    obtain st4 e4 where a: "acknowledge now acks st3 = (st4, e4)"
      by (cases "acknowledge now acks st3") auto
    have e: "st' = st4 \<and> es = e1 @ e3 @ e4" using assms(3) u(4) FromAudioData r a by simp
    have w: "\<forall>w \<in> set (waiting st). fst w = i \<longrightarrow> snd w \<noteq> sid"
      using assms(2) by (auto simp: waiters_def)
    have q1: "processingQueue st1 = processingQueue st" "waiting st1 = waiting st"
      by (subst u(2), simp)+
    have s2: "same_session sid st1 ?st2"
      using cs waiters_filter_other[OF assms(2)] q1
      by (simp add: same_session_def same_connection_refl outstanding_def waiters_def)
    have s3: "same_session sid st st3"
      using s1 s2 resume_waiting_other[OF r w] by (auto intro: same_session_trans)
    have s4: "same_session sid st st4"
      using s3 acknowledge_same[OF a, of sid] by (auto intro: same_session_trans)
    show ?thesis
      using e s4 u(5) resume_waiting_other[OF r w] acknowledge_same[OF a, of sid] by simp
  qed
qed

subsection \<open>Call ids stay fresh\<close>

lemma fresh_ids_cong:
  "calls st' = calls st \<Longrightarrow> next_call st' = next_call st \<Longrightarrow> fresh_ids st' = fresh_ids st"
  by (simp add: fresh_ids_def)

lemma send_fresh: "fresh_ids (fst (send now s msg st)) = fresh_ids st"
  by (simp add: send_unfold fresh_ids_def)

lemma acknowledge_fresh: "fresh_ids (fst (acknowledge now sids st)) = fresh_ids st"
proof -
  obtain st' es where a: "acknowledge now sids st = (st', es)" by (cases "acknowledge now sids st") auto
  have "st' = st\<lparr>wsManager := wsManager st'\<rparr>" using acknowledge_same[OF a, of "[]"] by simp
  then have "calls st' = calls st \<and> next_call st' = next_call st"
    by (metis server.select_convs(6,8) server.surjective server.update_convs(2))
  then show ?thesis using a by (simp add: fresh_ids_def)
qed

lemma handleAudioData_fresh:
  assumes "fresh_ids st"
  shows "fresh_ids (fst (handleAudioData now s d st))"
proof (cases "connections (wsManager st) s = None \<or>
   (\<exists>conn. connections (wsManager st) s = Some conn \<and> paused conn) \<or>
   sessionBuffers st s = None")
  case True
  then show ?thesis using assms handleAudioData_ignored[OF True, of now d] by simp
next
  case False
  then obtain conn buffer where c: "connections (wsManager st) s = Some conn" "\<not> paused conn"
    "sessionBuffers st s = Some buffer" by auto
  let ?st1 = "st\<lparr>sessionBuffers := (sessionBuffers st)(s \<mapsto> buffer @ [d])\<rparr>"
  obtain st2 e2 where l: "with_llm (processAudioChunk now (chunk_of now s d conn)) ?st1 = (st2, e2)"
    by (cases "with_llm (processAudioChunk now (chunk_of now s d conn)) ?st1") auto
  have f2: "fresh_ids st2" using with_llm_same(2)[OF l] assms by (simp add: fresh_ids_def)
  obtain st3 e3 r where p: "processAudioBuffer s FromAudioData st2 = (st3, e3, r)"
    by (cases "processAudioBuffer s FromAudioData st2") auto
  have f3: "fresh_ids st3" using processAudioBuffer_keeps[OF p] f2 by simp
  have "fresh_ids (st3\<lparr>processingQueue := (processingQueue st3)(s := r)\<rparr>)"
    using f3 by (simp add: fresh_ids_def)
  then show ?thesis using handleAudioData_accepted[OF c l] f2 p by auto
qed

lemma processBufferedAudio_fresh:
  assumes "fresh_ids st"
  shows "fresh_ids (fst (processBufferedAudio s st))"
proof (cases "processingQueue st s")
  case None
  obtain st1 e1 f where d: "drain s st = (st1, e1, f)" by (cases "drain s st") auto
  then show ?thesis using None drain_keeps[OF d] assms by (simp add: processBufferedAudio_def)
next
  case (Some i)
  then show ?thesis using assms by (simp add: processBufferedAudio_def fresh_ids_def)
qed

lemma set_metadata_fresh: "fresh_ids (set_metadata s conn m st) = fresh_ids st"
  by (simp add: set_metadata_def fresh_ids_def)

lemma handleControlMessage_fresh:
  assumes "fresh_ids st"
  shows "fresh_ids (fst (handleControlMessage now s msg st))"
proof (cases "connections (wsManager st) s")
  case None
  then show ?thesis using assms by (simp add: handleControlMessage_def getConnection_def)
next
  case (Some conn)
  show ?thesis
  proof (cases msg)
    case StopRecording
    let ?st0 = "set_metadata s conn ((spread (metadata conn))\<lparr>isRecording := Some False\<rparr>) st"
    obtain st1 e1 f where p: "processBufferedAudio s ?st0 = (st1, e1, f)"
      by (cases "processBufferedAudio s ?st0") auto
    obtain st2 e2 where a: "send now s (RecordingStopped now) st1 = (st2, e2)"
      by (cases "send now s (RecordingStopped now) st1") auto
    have "fresh_ids (fst (processBufferedAudio s ?st0))"
      using assms by (intro processBufferedAudio_fresh) (simp add: set_metadata_fresh)
    then have "fresh_ids st1" using p by simp
    moreover have "fresh_ids st2 = fresh_ids st1" using send_fresh[of now s "RecordingStopped now" st1] a by simp
    ultimately show ?thesis using handleControlMessage_stop[OF Some p a] StopRecording by simp
  qed (use assms Some in \<open>simp_all add: handleControlMessage_def getConnection_def set_metadata_fresh send_fresh\<close>)
qed

lemma call_completed_fresh:
  assumes "fresh_ids st"
  shows "fresh_ids (fst (call_completed now i out st))"
proof (cases "find_call i (calls st)")
  case None
  then show ?thesis using assms by (simp add: call_completed_def)
next
  case (Some c)
  let ?st0 = "st\<lparr>calls := filter (\<lambda>c'. call_id c' \<noteq> i) (calls st)\<rparr>"
  obtain st1 e1 where u:
    "processAudioBuffer_resumed now c out ?st0 = (st1, e1)"
    "st1 = st\<lparr>calls := filter (\<lambda>c'. call_id c' \<noteq> i) (calls st), wsManager := wsManager st1,
              llmProcessor := llmProcessor st1\<rparr>"
    "\<forall>x. same_connection (connections (wsManager st1) x) (connections (wsManager st) x)"
    "call_completed now i out st =
       (case origin c of
          FromAudioData \<Rightarrow>
            (case resume_waiting i (waiting st)
                    (st1\<lparr>processingQueue := (processingQueue st)(call_session c := None),
                         waiting := filter (\<lambda>w. fst w \<noteq> i) (waiting st)\<rparr>) of
               (st3, e3, acks) \<Rightarrow>
                 (case acknowledge now acks st3 of (st4, e4) \<Rightarrow> (st4, e1 @ e3 @ e4)))
        | FromBufferedAudio \<Rightarrow>
            (case send now (call_session c) (RecordingStopped now) st1 of
               (st2, e2) \<Rightarrow> (st2, e1 @ e2)))"
    by (rule call_completed_unfold[OF Some, of now out "''''"])
  have f1: "fresh_ids st1"
    by (subst u(2)) (use filter_calls_fresh[OF assms] in \<open>simp add: fresh_ids_def\<close>)
  show ?thesis
  proof (cases "origin c")
    case FromBufferedAudio
    then show ?thesis
      using u(4) f1 send_fresh[of now "call_session c" "RecordingStopped now" st1]
      by (simp add: case_prod_unfold)
  next
    case FromAudioData
    let ?st2 = "st1\<lparr>processingQueue := (processingQueue st)(call_session c := None),
                   waiting := filter (\<lambda>w. fst w \<noteq> i) (waiting st)\<rparr>"
    obtain st3 e3 acks where r: "resume_waiting i (waiting st) ?st2 = (st3, e3, acks)"
      by (cases "resume_waiting i (waiting st) ?st2") auto
    have "fresh_ids ?st2" using f1 by (simp add: fresh_ids_def)
    then have "fresh_ids st3" using resume_waiting_keeps[OF r] by simp
    then show ?thesis using u(4) FromAudioData r acknowledge_fresh[of now acks st3]
      by (simp add: case_prod_unfold)
  qed
qed

lemma turn_fresh:
  assumes "fresh_ids st"
  shows "fresh_ids (fst (turn x st))"
proof -
  obtain now e where x: "x = (now, e)" by (cases x)
  show ?thesis
  proof (cases e)
    case (Connect params)
    then show ?thesis using assms x
      by (auto simp: handleConnection_def fresh_ids_def split: prod.splits)
  next
    case (Frame s d)
    then show ?thesis using assms x handleAudioData_fresh by simp
  next
    case (Control s msg)
    then show ?thesis using assms x handleControlMessage_fresh by simp
  next
    case (Completes i out)
    then show ?thesis using assms x call_completed_fresh by simp
  next
    case (Closed s reason)
    then show ?thesis using assms x by (simp add: socket_closed_eq fresh_ids_def)
  next
    case (BatchTimer s)
    obtain st' es where l: "with_llm (timer_fired now s) st = (st', es)"
      by (cases "with_llm (timer_fired now s) st") auto
    then show ?thesis using assms x BatchTimer with_llm_same(2)[OF l] by simp
  next
    case (ReadyState w v)
    then show ?thesis using assms x by (simp add: fresh_ids_def)
  qed
qed

subsection \<open>Turns that do not concern a session\<close>

lemma turn_other:
  assumes "undisturbed sid e"
    and "\<And>i out. e = Completes i out \<Longrightarrow>
           i \<notin> call_id ` set (outstanding st sid) \<and> (\<forall>w \<in> set (waiters st sid). fst w \<noteq> i)"
    and "turn (now, e) st = (st', es)"
  shows "same_session sid st st' \<and> \<not> list_ex (is_dispatch sid) es"
proof (cases e)
  case (Connect params)
  then show ?thesis using assms handleConnection_other by simp
next
  case (Frame s d)
  then show ?thesis using assms handleAudioData_other by simp
next
  case (Control s msg)
  then show ?thesis using assms handleControlMessage_other by simp
next
  case (Completes i out)
  have c: "call_completed now i out st = (st', es)" using assms(3) Completes by simp
  from assms(2)[OF Completes] show ?thesis
    by (intro call_completed_other[OF _ _ c]) auto
next
  case (Closed s reason)
  then show ?thesis using assms socket_closed_other by simp
next
  case (BatchTimer s)
  then show ?thesis using assms with_llm_same(1) with_llm_keeps by auto
next
  case (ReadyState w v)
  then show ?thesis using assms
    by (auto simp: same_session_def same_connection_refl outstanding_def waiters_def)
qed

subsection \<open>The turns of a quiet session\<close>

lemma find_call_distinct:
  "distinct (map call_id cs) \<Longrightarrow> c \<in> set cs \<Longrightarrow> find_call (call_id c) cs = Some c"
  by (induction cs) (auto simp: rev_image_eqI)

lemma quiet_call:
  assumes "quiet st sid" "processingQueue st sid = Some i"
  obtains c where "outstanding st sid = [c]" "call_id c = i" "origin c = FromAudioData"
    "call_session c = sid" "c \<in> set (calls st)"
proof -
  from assms obtain c where c: "outstanding st sid = [c]" "call_id c = i" "origin c = FromAudioData"
    by (auto simp: quiet_def)
  then have "c \<in> set (outstanding st sid)" by simp
  then have "call_session c = sid" "c \<in> set (calls st)" by (auto simp: outstanding_def)
  with c show ?thesis by (rule that)
qed

lemma quiet_le_one: "quiet st sid \<Longrightarrow> length (outstanding st sid) \<le> 1"
  by (cases "processingQueue st sid") (auto simp: quiet_def dest: arg_cong[where f = length])

lemma handleAudioData_dispatch:
  assumes "connections (wsManager st) sid = Some conn" "\<not> paused conn"
    "sessionBuffers st sid = Some b" "processingQueue st sid = None"
  obtains p e2 where
    "handleAudioData now sid d st =
       (st\<lparr>sessionBuffers := (sessionBuffers st)(sid \<mapsto> []),
           calls := calls st @ [\<lparr>call_id = next_call st, call_session = sid,
                                 payload = concat (b @ [d]), call_metadata = metadata conn,
                                 origin = FromAudioData\<rparr>],
           next_call := next_call st + 1,
           processingQueue := (processingQueue st)(sid \<mapsto> next_call st),
           llmProcessor := p\<rparr>,
        [Emit (AudioChunkEvent (chunk_of now sid d conn))] @ e2 @
        [ProcessAudio (next_call st) sid (concat (b @ [d])) (metadata conn)])"
    "\<not> list_ex (is_dispatch sid) e2"
proof -
  let ?st1 = "st\<lparr>sessionBuffers := (sessionBuffers st)(sid \<mapsto> b @ [d])\<rparr>"
  obtain st2 e2 where l: "with_llm (processAudioChunk now (chunk_of now sid d conn)) ?st1 = (st2, e2)"
    by (cases "with_llm (processAudioChunk now (chunk_of now sid d conn)) ?st1") auto
  have k: "st2 = ?st1\<lparr>llmProcessor := llmProcessor st2\<rparr>"
    "\<not> list_ex (is_dispatch sid) e2"
    using with_llm_keeps[OF l, of sid] by auto
  have b2: "buffered st2 sid = b @ [d]" "connections (wsManager st2) sid = Some conn"
    "processingQueue st2 sid = None" "next_call st2 = next_call st" "calls st2 = calls st"
    by (subst k(1), simp add: buffered_def assms)+
  have p: "processAudioBuffer sid FromAudioData st2 =
     (st2\<lparr>sessionBuffers := (sessionBuffers st2)(sid \<mapsto> []),
         calls := calls st2 @ [\<lparr>call_id = next_call st2, call_session = sid,
                               payload = concat (buffered st2 sid), call_metadata = metadata conn,
                               origin = FromAudioData\<rparr>],
         next_call := next_call st2 + 1\<rparr>,
      [ProcessAudio (next_call st2) sid (concat (buffered st2 sid)) (metadata conn)],
      Some (next_call st2))"
    using b2 by (intro processAudioBuffer_some) auto
  have "handleAudioData now sid d st =
       (st\<lparr>sessionBuffers := (sessionBuffers st)(sid \<mapsto> []),
           calls := calls st @ [\<lparr>call_id = next_call st, call_session = sid,
                                 payload = concat (b @ [d]), call_metadata = metadata conn,
                                 origin = FromAudioData\<rparr>],
           next_call := next_call st + 1,
           processingQueue := (processingQueue st)(sid \<mapsto> next_call st),
           llmProcessor := llmProcessor st2\<rparr>,
        [Emit (AudioChunkEvent (chunk_of now sid d conn))] @ e2 @
        [ProcessAudio (next_call st) sid (concat (b @ [d])) (metadata conn)])"
    unfolding handleAudioData_accepted[OF assms(1-3) l] p b2
    by (subst (1 2 3) k(1)) (simp add: assms)
  then show ?thesis using k(2) by (rule that)
qed

lemma handleAudioData_buffers:
  assumes "connections (wsManager st) sid = Some conn" "\<not> paused conn"
    "sessionBuffers st sid = Some b" "processingQueue st sid = Some i"
  obtains p e2 where
    "handleAudioData now sid d st =
       (st\<lparr>sessionBuffers := (sessionBuffers st)(sid \<mapsto> b @ [d]), llmProcessor := p\<rparr>,
        [Emit (AudioChunkEvent (chunk_of now sid d conn))] @ e2)"
    "\<not> list_ex (is_dispatch sid) e2"
proof -
  let ?st1 = "st\<lparr>sessionBuffers := (sessionBuffers st)(sid \<mapsto> b @ [d])\<rparr>"
  obtain st2 e2 where l: "with_llm (processAudioChunk now (chunk_of now sid d conn)) ?st1 = (st2, e2)"
    by (cases "with_llm (processAudioChunk now (chunk_of now sid d conn)) ?st1") auto
  have k: "st2 = ?st1\<lparr>llmProcessor := llmProcessor st2\<rparr>"
    "\<not> list_ex (is_dispatch sid) e2"
    using with_llm_keeps[OF l, of sid] by auto
  have q2: "processingQueue st2 sid = Some i" by (subst k(1)) (simp add: assms)
  have "handleAudioData now sid d st =
       (st\<lparr>sessionBuffers := (sessionBuffers st)(sid \<mapsto> b @ [d]), llmProcessor := llmProcessor st2\<rparr>,
        [Emit (AudioChunkEvent (chunk_of now sid d conn))] @ e2)"
    unfolding handleAudioData_accepted[OF assms(1-3) l] using q2 k(1) by simp
  then show ?thesis using k(2) by (rule that)
qed

lemma handleControlMessage_absent:
  "connections (wsManager st) sid = None \<Longrightarrow> handleControlMessage now sid msg st = (st, [])"
  by (simp add: handleControlMessage_def getConnection_def)

lemma send_own:
  assumes "connections (wsManager st) sid = Some c"
  shows "\<exists>r c'. send now sid m st = (st\<lparr>wsManager := r\<rparr>, snd (send now sid m st)) \<and>
           connections r sid = Some c' \<and> metadata c' = metadata c \<and>
           \<not> list_ex (is_dispatch sid) (snd (send now sid m st))"
proof -
  let ?r = "snd (sendMessage (sockets st) now sid (wsManager st))"
  have 1: "send now sid m st = (st\<lparr>wsManager := ?r\<rparr>, snd (send now sid m st))"
    by (simp add: send_unfold)
  have 2: "\<exists>c'. connections ?r sid = Some c' \<and> metadata c' = metadata c"
    using assms by (auto simp: sendMessage_def)
  have 3: "\<not> list_ex (is_dispatch sid) (snd (send now sid m st))"
    by (simp add: send_unfold)
  show ?thesis using 1 2 3 by blast
qed

lemma handleControlMessage_plain:
  assumes "msg \<noteq> StopRecording" "connections (wsManager st) sid = Some conn"
  shows "\<exists>r conn'. handleControlMessage now sid msg st =
           (st\<lparr>wsManager := r\<rparr>, snd (handleControlMessage now sid msg st)) \<and>
         connections r sid = Some conn' \<and>
         paused conn' = pause_after sid (paused conn) (Control sid msg) \<and>
         \<not> list_ex (is_dispatch sid) (snd (handleControlMessage now sid msg st))"
proof -
  have via: "\<exists>r conn'. send now sid m (set_metadata sid conn md st) =
           (st\<lparr>wsManager := r\<rparr>, snd (send now sid m (set_metadata sid conn md st))) \<and>
         connections r sid = Some conn' \<and> metadata conn' = Some md \<and>
         \<not> list_ex (is_dispatch sid) (snd (send now sid m (set_metadata sid conn md st)))" for m md
  proof -
    have c0: "connections (wsManager (set_metadata sid conn md st)) sid = Some (conn\<lparr>metadata := Some md\<rparr>)"
      by (simp add: set_metadata_def)
    have e: "(set_metadata sid conn md st)\<lparr>wsManager := r\<rparr> = st\<lparr>wsManager := r\<rparr>" for r
      by (simp add: set_metadata_def)
    from send_own[OF c0, of now m] show ?thesis unfolding e by auto
  qed
  show ?thesis
  proof (cases msg)
    case Ping
    have h: "handleControlMessage now sid msg st = send now sid Pong st"
      using Ping assms(2) by (simp add: handleControlMessage_def getConnection_def)
    from send_own[OF assms(2), of now Pong] show ?thesis
      unfolding h using Ping by (auto simp: paused_def)
  next
    case Unknown
    have idem: "st\<lparr>wsManager := wsManager st\<rparr> = st" by simp
    have "handleControlMessage now sid msg st = (st, [])"
      using Unknown assms(2) by (simp add: handleControlMessage_def getConnection_def)
    then show ?thesis using assms(2) Unknown idem
      by (intro exI[of _ "wsManager st"] exI[of _ conn]) simp
  next
    case StartRecording
    have h: "handleControlMessage now sid msg st = send now sid (RecordingStarted now)
        (set_metadata sid conn ((spread (metadata conn))\<lparr>isRecording := Some True\<rparr>) st)"
      using StartRecording assms(2) by (simp add: handleControlMessage_def getConnection_def)
    from via[of "RecordingStarted now" "(spread (metadata conn))\<lparr>isRecording := Some True\<rparr>"]
    show ?thesis unfolding h using StartRecording
      by (cases "metadata conn") (auto simp: paused_def)
  next
    case PauseRecording
    have h: "handleControlMessage now sid msg st = send now sid (RecordingPaused now)
        (set_metadata sid conn ((spread (metadata conn))\<lparr>isPaused := Some True\<rparr>) st)"
      using PauseRecording assms(2) by (simp add: handleControlMessage_def getConnection_def)
    from via[of "RecordingPaused now" "(spread (metadata conn))\<lparr>isPaused := Some True\<rparr>"]
    show ?thesis unfolding h using PauseRecording by (auto simp: paused_def)
  next
    case ResumeRecording
    have h: "handleControlMessage now sid msg st = send now sid (RecordingResumed now)
        (set_metadata sid conn ((spread (metadata conn))\<lparr>isPaused := Some False\<rparr>) st)"
      using ResumeRecording assms(2) by (simp add: handleControlMessage_def getConnection_def)
    from via[of "RecordingResumed now" "(spread (metadata conn))\<lparr>isPaused := Some False\<rparr>"]
    show ?thesis unfolding h using ResumeRecording by (auto simp: paused_def)
  next
    case StopRecording
    then show ?thesis using assms by simp
  qed
qed

lemma outstanding_simps:
  "outstanding (st\<lparr>wsManager := r\<rparr>) sid = outstanding st sid"
  "outstanding (st\<lparr>sessionBuffers := b\<rparr>) sid = outstanding st sid"
  "outstanding (st\<lparr>processingQueue := q\<rparr>) sid = outstanding st sid"
  "outstanding (st\<lparr>waiting := w\<rparr>) sid = outstanding st sid"
  "outstanding (st\<lparr>llmProcessor := p\<rparr>) sid = outstanding st sid"
  "outstanding (st\<lparr>next_call := n\<rparr>) sid = outstanding st sid"
  "outstanding (st\<lparr>sockets := k\<rparr>) sid = outstanding st sid"
  "outstanding (st\<lparr>calls := filter P (calls st)\<rparr>) sid = filter P (outstanding st sid)"
  "outstanding (st\<lparr>calls := calls st @ cs\<rparr>) sid = outstanding st sid @ filter (\<lambda>c. call_session c = sid) cs"
  by (simp_all add: outstanding_def conj_commute)

lemma waiters_simps:
  "waiters (st\<lparr>wsManager := r\<rparr>) sid = waiters st sid"
  "waiters (st\<lparr>sessionBuffers := b\<rparr>) sid = waiters st sid"
  "waiters (st\<lparr>processingQueue := q\<rparr>) sid = waiters st sid"
  "waiters (st\<lparr>calls := cs\<rparr>) sid = waiters st sid"
  "waiters (st\<lparr>llmProcessor := p\<rparr>) sid = waiters st sid"
  "waiters (st\<lparr>next_call := n\<rparr>) sid = waiters st sid"
  "waiters (st\<lparr>sockets := k\<rparr>) sid = waiters st sid"
  "waiters (st\<lparr>waiting := filter P (waiting st)\<rparr>) sid = filter P (waiters st sid)"
  "waiters (st\<lparr>waiting := waiting st @ ws'\<rparr>) sid = waiters st sid @ filter (\<lambda>w. snd w = sid) ws'"
  by (simp_all add: waiters_def conj_commute)

lemma buffered_simps:
  "buffered (st\<lparr>wsManager := r\<rparr>) sid = buffered st sid"
  "buffered (st\<lparr>processingQueue := q\<rparr>) sid = buffered st sid"
  "buffered (st\<lparr>calls := cs\<rparr>) sid = buffered st sid"
  "buffered (st\<lparr>llmProcessor := p\<rparr>) sid = buffered st sid"
  "buffered (st\<lparr>next_call := n\<rparr>) sid = buffered st sid"
  "buffered (st\<lparr>waiting := w\<rparr>) sid = buffered st sid"
  "buffered (st\<lparr>sockets := k\<rparr>) sid = buffered st sid"
  "buffered (st\<lparr>sessionBuffers := (sessionBuffers st)(sid \<mapsto> b)\<rparr>) sid = b"
  by (simp_all add: buffered_def)

lemma registry_update_quiet:
  "quiet (st\<lparr>wsManager := r\<rparr>) sid = quiet st sid"
  "quiet (st\<lparr>wsManager := r, sessionBuffers := b\<rparr>) sid = quiet st sid"
  by (simp_all add: quiet_def waiters_simps outstanding_simps cong: option.case_cong)

lemma call_completed_quiet:
  assumes "fresh_ids st" "quiet st sid" "processingQueue st sid = Some i"
    and "call_completed now i out st = (st', es)"
  shows "quiet st' sid \<and> processingQueue st' sid = None \<and> outstanding st' sid = [] \<and>
         same_connection (connections (wsManager st') sid) (connections (wsManager st) sid) \<and>
         sessionBuffers st' sid = sessionBuffers st sid \<and>
         \<not> list_ex (is_dispatch sid) es \<and>
         (\<exists>c rest. outstanding st sid = [c] \<and>
            es = snd (processAudioBuffer_resumed now c out
                        (st\<lparr>calls := filter (\<lambda>c'. call_id c' \<noteq> i) (calls st)\<rparr>)) @ rest)"
proof -
  from quiet_call[OF assms(2,3)] obtain c where c: "outstanding st sid = [c]" "call_id c = i"
    "origin c = FromAudioData" "call_session c = sid" "c \<in> set (calls st)" by blast
  have f: "find_call i (calls st) = Some c"
    using find_call_distinct[OF _ c(5)] assms(1) c(2) by (simp add: fresh_ids_def)
  have w0: "waiters st sid = []" using assms(2) by (simp add: quiet_def)
  let ?st0 = "st\<lparr>calls := filter (\<lambda>c'. call_id c' \<noteq> i) (calls st)\<rparr>"
  obtain st1 e1 where u:
    "processAudioBuffer_resumed now c out ?st0 = (st1, e1)"
    "st1 = st\<lparr>calls := filter (\<lambda>c'. call_id c' \<noteq> i) (calls st), wsManager := wsManager st1,
              llmProcessor := llmProcessor st1\<rparr>"
    "\<forall>x. same_connection (connections (wsManager st1) x) (connections (wsManager st) x)"
    "call_completed now i out st =
       (case origin c of
          FromAudioData \<Rightarrow>
            (case resume_waiting i (waiting st)
                    (st1\<lparr>processingQueue := (processingQueue st)(call_session c := None),
                         waiting := filter (\<lambda>w. fst w \<noteq> i) (waiting st)\<rparr>) of
               (st3, e3, acks) \<Rightarrow>
                 (case acknowledge now acks st3 of (st4, e4) \<Rightarrow> (st4, e1 @ e3 @ e4)))
        | FromBufferedAudio \<Rightarrow>
            (case send now (call_session c) (RecordingStopped now) st1 of
               (st2, e2) \<Rightarrow> (st2, e1 @ e2)))"
    "\<not> list_ex (is_dispatch sid) e1"
    by (rule call_completed_unfold[OF f, of now out sid])
  define st2 where "st2 = st1\<lparr>processingQueue := (processingQueue st)(call_session c := None),
                 waiting := filter (\<lambda>w. fst w \<noteq> i) (waiting st)\<rparr>"
  obtain st3 e3 acks where r: "resume_waiting i (waiting st) st2 = (st3, e3, acks)"
    by (cases "resume_waiting i (waiting st) st2") auto
  obtain st4 e4 where a: "acknowledge now acks st3 = (st4, e4)"
    by (cases "acknowledge now acks st3") auto
  have e: "st' = st4" "es = e1 @ e3 @ e4"
    using assms(4) u(4) c(3) r a unfolding st2_def by auto
  have o1: "outstanding st1 sid = []" "waiters st1 sid = []"
    "sessionBuffers st1 = sessionBuffers st"
    by (subst u(2), simp add: outstanding_simps waiters_simps c(1,2) w0)+
  have o2: "outstanding st2 sid = []" "waiters st2 sid = []" "processingQueue st2 sid = None"
    "same_connection (connections (wsManager st2) sid) (connections (wsManager st) sid)"
    "sessionBuffers st2 sid = sessionBuffers st sid"
    using o1 w0 c(4) u(3) unfolding st2_def
    by (simp_all add: outstanding_simps) (auto simp: waiters_def filter_empty_conv)
  have w: "\<forall>w \<in> set (waiting st). fst w = i \<longrightarrow> snd w \<noteq> sid"
    using w0 by (auto simp: waiters_def filter_empty_conv)
  have s: "same_session sid st2 st4" "\<not> list_ex (is_dispatch sid) e3" "\<not> list_ex (is_dispatch sid) e4"
    using resume_waiting_other[OF r w] acknowledge_same[OF a, of sid]
    by (auto intro: same_session_trans)
  have fin: "outstanding st4 sid = []" "waiters st4 sid = []" "processingQueue st4 sid = None"
    "same_connection (connections (wsManager st4) sid) (connections (wsManager st) sid)"
    "sessionBuffers st4 sid = sessionBuffers st sid"
    using s(1) o2 same_connection_trans by (auto simp: same_session_def)
  have "\<exists>c rest. outstanding st sid = [c] \<and>
            es = snd (processAudioBuffer_resumed now c out
                        (st\<lparr>calls := filter (\<lambda>c'. call_id c' \<noteq> i) (calls st)\<rparr>)) @ rest"
    using c(1) u(1) e(2) by auto
  then show ?thesis using fin s u(5) e by (simp add: quiet_def)
qed

subsection \<open>While a call of \<open>handleAudioData\<close> is outstanding\<close>

lemma control_own:
  assumes "msg \<noteq> StopRecording" "connections (wsManager st) sid = Some conn"
    and t: "turn (now, Control sid msg) st = (st', es)"
  shows "quiet st' sid = quiet st sid" "processingQueue st' = processingQueue st"
    "sessionBuffers st' = sessionBuffers st" "outstanding st' sid = outstanding st sid"
    "connections (wsManager st') sid \<noteq> None"
    "is_paused st' sid = pause_after sid (is_paused st sid) (Control sid msg)"
    "\<not> list_ex (is_dispatch sid) es"
proof -
  from handleControlMessage_plain[OF assms(1,2), of now] t
  obtain r conn' where h:
    "st' = st\<lparr>wsManager := r\<rparr>" "connections r sid = Some conn'"
    "paused conn' = pause_after sid (paused conn) (Control sid msg)"
    "\<not> list_ex (is_dispatch sid) es"
    by auto
  show "quiet st' sid = quiet st sid" by (subst h(1)) (rule registry_update_quiet)
  show "processingQueue st' = processingQueue st" by (subst h(1)) simp
  show "sessionBuffers st' = sessionBuffers st" by (subst h(1)) simp
  show "outstanding st' sid = outstanding st sid" by (subst h(1)) (rule outstanding_simps)
  show "connections (wsManager st') sid \<noteq> None" by (subst h(1)) (simp add: h(2))
  show "is_paused st' sid = pause_after sid (is_paused st sid) (Control sid msg)"
    using h(2,3) assms(2) by (subst h(1)) (simp add: is_paused_def)
  show "\<not> list_ex (is_dispatch sid) es" by (rule h(4))
qed

lemma guarded_turn:
  assumes "fresh_ids st" "guarded st sid i" "during_call sid i e"
    and t: "turn (now, e) st = (st', es)"
  shows "guarded st' sid i \<and>
         buffered st' sid = buffered st sid @ frame_accepted sid (is_paused st sid) e \<and>
         is_paused st' sid = pause_after sid (is_paused st sid) e \<and>
         outstanding st' sid = outstanding st sid \<and>
         \<not> list_ex (is_dispatch sid) es"
proof -
  have q: "quiet st sid" "processingQueue st sid = Some i" using assms(2) by (simp_all add: guarded_def)
  obtain conn b where c: "connections (wsManager st) sid = Some conn" "sessionBuffers st sid = Some b"
    using assms(2) by (auto simp: guarded_def)
  have w0: "waiters st sid = []" using q(1) by (simp add: quiet_def)
  obtain c0 where c0: "outstanding st sid = [c0]" "call_id c0 = i"
    by (rule quiet_call[OF q])
  have other: ?thesis
    if u: "undisturbed sid e" and a: "frame_accepted sid (is_paused st sid) e = []"
      "pause_after sid (is_paused st sid) e = is_paused st sid"
  proof -
    have "same_session sid st st' \<and> \<not> list_ex (is_dispatch sid) es"
    proof (rule turn_other[OF u _ t])
      fix j out assume "e = Completes j out"
      then have "j \<noteq> i" using assms(3) by simp
      then show "j \<notin> call_id ` set (outstanding st sid) \<and> (\<forall>w\<in>set (waiters st sid). fst w \<noteq> j)"
        using c0 w0 by simp
    qed
    then show ?thesis
      using same_session_guarded[of sid st st' i] same_session_buffered[of sid st st']
        same_session_paused[of sid st st'] same_session_outstanding[of sid st st'] assms(2) a
      by simp
  qed
  show ?thesis
  proof (cases e)
    case (BatchTimer s)
    then show ?thesis using other by simp
  next
    case (ReadyState w v)
    then show ?thesis using other by simp
  next
    case (Closed s reason)
    then show ?thesis using other assms(3) by simp
  next
    case (Connect params)
    then show ?thesis using other assms(3) by simp
  next
    case (Completes j out)
    then show ?thesis using other by simp
  next
    case (Control s msg)
    show ?thesis
    proof (cases "s = sid")
      case False
      then show ?thesis using other Control by (cases msg) simp_all
    next
      case True
      then have m: "msg \<noteq> StopRecording" using assms(3) Control by simp
      have t': "turn (now, Control sid msg) st = (st', es)" using t Control True by simp
      note k = control_own[OF m c(1) t']
      have g: "guarded st' sid i" using assms(2) k(1,2,3,5) by (simp add: guarded_def)
      have "buffered st' sid = buffered st sid" using k(3) by (simp add: buffered_def)
      then show ?thesis using g k(4,6,7) Control True by simp
    qed
  next
    case (Frame s d)
    show ?thesis
    proof (cases "s = sid")
      case False
      then show ?thesis using other Frame by simp
    next
      case True
      show ?thesis
      proof (cases "paused conn")
        case p: True
        have "handleAudioData now sid d st = (st, [])"
          using c(1) p by (intro handleAudioData_ignored) auto
        then show ?thesis using t Frame True assms(2) p c(1) by (simp add: is_paused_def)
      next
        case np: False
        obtain p e2 where h: "handleAudioData now sid d st =
            (st\<lparr>sessionBuffers := (sessionBuffers st)(sid \<mapsto> b @ [d]), llmProcessor := p\<rparr>,
             [Emit (AudioChunkEvent (chunk_of now sid d conn))] @ e2)"
          "\<not> list_ex (is_dispatch sid) e2"
          by (rule handleAudioData_buffers[OF c(1) np c(2) q(2), of now d])
        have e: "st' = st\<lparr>sessionBuffers := (sessionBuffers st)(sid \<mapsto> b @ [d]), llmProcessor := p\<rparr>"
          "es = [Emit (AudioChunkEvent (chunk_of now sid d conn))] @ e2"
          using h(1) t Frame True by simp_all
        have "quiet (st\<lparr>sessionBuffers := (sessionBuffers st)(sid \<mapsto> b @ [d]), llmProcessor := p\<rparr>) sid
                = quiet st sid"
          by (simp add: quiet_def waiters_simps outstanding_simps cong: option.case_cong)
        then have g: "guarded st' sid i" using assms(2)
          by (subst e(1)) (simp add: guarded_def)
        have bb: "buffered st sid = b" using c(2) by (simp add: buffered_def)
        show ?thesis using g h(2) e(2) Frame True c(1) np bb
          by (subst (1 2 3) e(1)) (simp add: buffered_simps outstanding_simps is_paused_def)
      qed
    qed
  qed
qed

lemma run_append:
  "run (xs @ ys) st =
     (case run xs st of (st1, e1) \<Rightarrow> (case run ys st1 of (st2, e2) \<Rightarrow> (st2, e1 @ e2)))"
  by (induction xs arbitrary: st) (auto split: prod.splits)

lemma final_Cons: "final (x # xs) st = final xs (fst (turn x st))"
  by (simp add: final_def case_prod_unfold)

lemma run_Cons_effects: "snd (run (x # xs) st) = snd (turn x st) # snd (run xs (fst (turn x st)))"
  by (simp add: case_prod_unfold)

lemma final_append: "final (xs @ ys) st = final ys (final xs st)"
  by (simp add: final_def run_append case_prod_unfold)

lemma run_append_effects: "snd (run (xs @ ys) st) = snd (run xs st) @ snd (run ys (final xs st))"
  by (simp add: final_def run_append case_prod_unfold)

lemma dispatches_simps:
  "dispatches sid [] = []"
  "dispatches sid (es # ess) = filter (is_dispatch sid) es @ dispatches sid ess"
  "dispatches sid (ess @ ess') = dispatches sid ess @ dispatches sid ess'"
  by (simp_all add: dispatches_def)

lemma no_dispatch_filter: "\<not> list_ex (is_dispatch sid) es \<Longrightarrow> filter (is_dispatch sid) es = []"
  by (simp add: list_ex_iff filter_empty_conv)

lemma guarded_run:
  "fresh_ids st \<Longrightarrow> guarded st sid i \<Longrightarrow> \<forall>x \<in> set evs. during_call sid i (snd x) \<Longrightarrow>
   guarded (final evs st) sid i \<and> fresh_ids (final evs st) \<and>
   buffered (final evs st) sid = buffered st sid @ accepted sid (is_paused st sid) evs \<and>
   outstanding (final evs st) sid = outstanding st sid \<and>
   dispatches sid (snd (run evs st)) = []"
proof (induction evs arbitrary: st)
  case Nil
  then show ?case by (simp add: final_def dispatches_simps)
next
  case (Cons x evs)
  obtain now e where x: "x = (now, e)" by (cases x)
  obtain st1 e1 where t: "turn (now, e) st = (st1, e1)" by (cases "turn (now, e) st") auto
  have d: "during_call sid i e" using Cons.prems(3) x by simp
  note g = guarded_turn[OF Cons.prems(1,2) d t]
  have f1: "fresh_ids st1" using turn_fresh[OF Cons.prems(1), of "(now, e)"] t by simp
  have ih: "guarded (final evs st1) sid i \<and> fresh_ids (final evs st1) \<and>
     buffered (final evs st1) sid = buffered st1 sid @ accepted sid (is_paused st1 sid) evs \<and>
     outstanding (final evs st1) sid = outstanding st1 sid \<and>
     dispatches sid (snd (run evs st1)) = []"
    using Cons.IH[OF f1] g Cons.prems(3) by simp
  show ?case
    using ih g t unfolding x final_Cons run_Cons_effects
    by (simp add: dispatches_simps no_dispatch_filter)
qed

subsection \<open>Between two calls\<close>

lemma idle_turn:
  assumes "idle st sid" "after_call sid e" and t: "turn (now, e) st = (st', es)"
  shows "idle st' sid \<and> buffered st' sid = buffered st sid \<and>
         is_paused st' sid = pause_after sid (is_paused st sid) e \<and>
         \<not> list_ex (is_dispatch sid) es"
proof -
  have q: "quiet st sid" "processingQueue st sid = None" using assms(1) by (simp_all add: idle_def)
  obtain conn where c: "connections (wsManager st) sid = Some conn"
    using assms(1) by (auto simp: idle_def)
  have o: "outstanding st sid = []" "waiters st sid = []" using q by (simp_all add: quiet_def)
  have other: ?thesis
    if u: "undisturbed sid e" and a: "pause_after sid (is_paused st sid) e = is_paused st sid"
  proof -
    have "same_session sid st st' \<and> \<not> list_ex (is_dispatch sid) es"
      using o by (intro turn_other[OF u _ t]) simp
    then show ?thesis
      using same_session_idle[of sid st st'] same_session_buffered[of sid st st']
        same_session_paused[of sid st st'] assms(1) a
      by simp
  qed
  show ?thesis
  proof (cases e)
    case (BatchTimer s)
    then show ?thesis using other by simp
  next
    case (ReadyState w v)
    then show ?thesis using other by simp
  next
    case (Closed s reason)
    then show ?thesis using other assms(2) by simp
  next
    case (Connect params)
    then show ?thesis using other assms(2) by simp
  next
    case (Completes j out)
    then show ?thesis using other by simp
  next
    case (Frame s d)
    then show ?thesis using other assms(2) by simp
  next
    case (Control s msg)
    show ?thesis
    proof (cases "s = sid")
      case False
      then show ?thesis using other Control by (cases msg) simp_all
    next
      case True
      then have m: "msg \<noteq> StopRecording" using assms(2) Control by simp
      have t': "turn (now, Control sid msg) st = (st', es)" using t Control True by simp
      note k = control_own[OF m c t']
      have g: "idle st' sid" using assms(1) k(1,2,3,5) by (simp add: idle_def)
      have "buffered st' sid = buffered st sid" using k(3) by (simp add: buffered_def)
      then show ?thesis using g k(6,7) Control True by simp
    qed
  qed
qed

lemma idle_run:
  "fresh_ids st \<Longrightarrow> idle st sid \<Longrightarrow> \<forall>x \<in> set evs. after_call sid (snd x) \<Longrightarrow>
   idle (final evs st) sid \<and> fresh_ids (final evs st) \<and>
   buffered (final evs st) sid = buffered st sid \<and>
   dispatches sid (snd (run evs st)) = []"
proof (induction evs arbitrary: st)
  case Nil
  then show ?case by (simp add: final_def dispatches_simps)
next
  case (Cons x evs)
  obtain now e where x: "x = (now, e)" by (cases x)
  obtain st1 e1 where t: "turn (now, e) st = (st1, e1)" by (cases "turn (now, e) st") auto
  have d: "after_call sid e" using Cons.prems(3) x by simp
  note g = idle_turn[OF Cons.prems(2) d t]
  have f1: "fresh_ids st1" using turn_fresh[OF Cons.prems(1), of "(now, e)"] t by simp
  have ih: "idle (final evs st1) sid \<and> fresh_ids (final evs st1) \<and>
     buffered (final evs st1) sid = buffered st1 sid \<and>
     dispatches sid (snd (run evs st1)) = []"
    using Cons.IH[OF f1] g Cons.prems(3) by simp
  show ?case
    using ih g t unfolding x final_Cons run_Cons_effects
    by (simp add: dispatches_simps no_dispatch_filter)
qed

subsection \<open>Without a stop-recording, one call at a time\<close>

lemma quiet_turn:
  assumes "fresh_ids st" "quiet st sid" "e \<noteq> Control sid StopRecording"
    and t: "turn (now, e) st = (st', es)"
  shows "quiet st' sid"
proof -
  have w0: "waiters st sid = []" using assms(2) by (simp add: quiet_def)
  have other: "quiet st' sid"
    if "undisturbed sid e" "\<And>i out. e = Completes i out \<Longrightarrow> i \<notin> call_id ` set (outstanding st sid)"
  proof -
    have "same_session sid st st' \<and> \<not> list_ex (is_dispatch sid) es"
      using that w0 by (intro turn_other[OF _ _ t]) auto
    then show ?thesis using same_session_quiet[of sid st st'] assms(2) by simp
  qed
  show ?thesis
  proof (cases e)
    case (BatchTimer s)
    then show ?thesis using other by simp
  next
    case (ReadyState w v)
    then show ?thesis using other by simp
  next
    case (Closed s reason)
    show ?thesis
    proof (cases "s = sid")
      case True
      then show ?thesis using t Closed assms(2)
        by (auto simp: socket_closed_eq registry_update_quiet)
    next
      case False
      then show ?thesis using other Closed by simp
    qed
  next
    case (Connect params)
    show ?thesis
    proof (cases "p_sessionId params = sid")
      case True
      then show ?thesis using t Connect assms(2)
        by (auto simp: handleConnection_def registry_update_quiet split: prod.splits if_splits)
    next
      case False
      then show ?thesis using other Connect by simp
    qed
  next
    case (Control s msg)
    show ?thesis
    proof (cases "s = sid")
      case False
      then show ?thesis using other Control by simp
    next
      case True
      then have m: "msg \<noteq> StopRecording" using assms(3) Control by simp
      show ?thesis
      proof (cases "connections (wsManager st) sid")
        case None
        then show ?thesis using t Control True assms(2) by (simp add: handleControlMessage_absent)
      next
        case (Some conn)
        have t': "turn (now, Control sid msg) st = (st', es)" using t Control True by simp
        show ?thesis using control_own(1)[OF m Some t'] assms(2) by simp
      qed
    qed
  next
    case (Completes j out)
    show ?thesis
    proof (cases "j \<in> call_id ` set (outstanding st sid)")
      case False
      then show ?thesis using other Completes by simp
    next
      case True
      then have ne: "outstanding st sid \<noteq> []" by auto
      obtain i where q: "processingQueue st sid = Some i"
        using assms(2) ne by (cases "processingQueue st sid") (simp_all add: quiet_def)
      obtain c where c: "outstanding st sid = [c]" "call_id c = i"
        by (rule quiet_call[OF assms(2) q])
      have ji: "j = i" using True c by simp
      have cc: "call_completed now i out st = (st', es)" using t Completes ji by simp
      show ?thesis using call_completed_quiet[OF assms(1,2) q cc] by blast
    qed
  next
    case (Frame s d)
    show ?thesis
    proof (cases "s = sid")
      case False
      then show ?thesis using other Frame by simp
    next
      case True
      show ?thesis
      proof (cases "connections (wsManager st) sid = None \<or>
         (\<exists>conn. connections (wsManager st) sid = Some conn \<and> paused conn) \<or>
         sessionBuffers st sid = None")
        case ign: True
        show ?thesis using handleAudioData_ignored[OF ign, of now d] t Frame True assms(2) by simp
      next
        case False
        then obtain conn b where c: "connections (wsManager st) sid = Some conn" "\<not> paused conn"
          "sessionBuffers st sid = Some b" by auto
        show ?thesis
        proof (cases "processingQueue st sid")
          case (Some i)
          obtain p e2 where h: "handleAudioData now sid d st =
              (st\<lparr>sessionBuffers := (sessionBuffers st)(sid \<mapsto> b @ [d]), llmProcessor := p\<rparr>,
               [Emit (AudioChunkEvent (chunk_of now sid d conn))] @ e2)"
            by (rule handleAudioData_buffers[OF c Some, of now d])
          have "st' = st\<lparr>sessionBuffers := (sessionBuffers st)(sid \<mapsto> b @ [d]), llmProcessor := p\<rparr>"
            using h(1) t Frame True by simp_all
          then show ?thesis using assms(2)
            by (simp add: quiet_def waiters_simps outstanding_simps cong: option.case_cong)
        next
          case None
          then have o: "outstanding st sid = []" using assms(2) by (simp add: quiet_def)
          obtain p e2 where h: "handleAudioData now sid d st =
             (st\<lparr>sessionBuffers := (sessionBuffers st)(sid \<mapsto> []),
                 calls := calls st @ [\<lparr>call_id = next_call st, call_session = sid,
                                       payload = concat (b @ [d]), call_metadata = metadata conn,
                                       origin = FromAudioData\<rparr>],
                 next_call := next_call st + 1,
                 processingQueue := (processingQueue st)(sid \<mapsto> next_call st),
                 llmProcessor := p\<rparr>,
              [Emit (AudioChunkEvent (chunk_of now sid d conn))] @ e2 @
              [ProcessAudio (next_call st) sid (concat (b @ [d])) (metadata conn)])"
            by (rule handleAudioData_dispatch[OF c None, of now d])
          have "st' = st\<lparr>sessionBuffers := (sessionBuffers st)(sid \<mapsto> []),
             calls := calls st @ [\<lparr>call_id = next_call st, call_session = sid,
                                   payload = concat (b @ [d]), call_metadata = metadata conn,
                                   origin = FromAudioData\<rparr>],
             next_call := next_call st + 1,
             processingQueue := (processingQueue st)(sid \<mapsto> next_call st),
             llmProcessor := p\<rparr>"
            using h(1) t Frame True by simp_all
          then show ?thesis using o w0
            by (simp add: quiet_def waiters_def outstanding_def)
        qed
      qed
    qed
  qed
qed

lemma quiet_run:
  "fresh_ids st \<Longrightarrow> quiet st sid \<Longrightarrow> \<forall>x \<in> set evs. snd x \<noteq> Control sid StopRecording \<Longrightarrow>
   quiet (final evs st) sid \<and> fresh_ids (final evs st)"
proof (induction evs arbitrary: st)
  case Nil
  then show ?case by (simp add: final_def)
next
  case (Cons x evs)
  obtain now e where x: "x = (now, e)" by (cases x)
  obtain st1 e1 where t: "turn (now, e) st = (st1, e1)" by (cases "turn (now, e) st") auto
  have q1: "quiet st1 sid"
    using quiet_turn[OF Cons.prems(1,2) _ t] Cons.prems(3) x by simp
  have f1: "fresh_ids st1" using turn_fresh[OF Cons.prems(1), of "(now, e)"] t by simp
  have "quiet (final evs st1) sid \<and> fresh_ids (final evs st1)"
    using Cons.IH[OF f1] q1 Cons.prems(3) by simp
  then show ?case using t x by (simp add: final_def case_prod_unfold)
qed




text \<open>
  C1 (single-flight invariant): the code breaks it. In the run \<open>drain_race\<close> the final
  dispatch of the stop-recording drain (call 1, carrying the second frame) is started by
  \<open>processBufferedAudio\<close> without an entry in \<open>processingQueue\<close>; the third frame then
  finds no entry and \<open>handleAudioData\<close> starts call 2 while call 1 is outstanding. Two
  calls of the session are outstanding at once.
\<close>

theorem single_flight_drain_race:
  "map (\<lambda>c. (call_id c, payload c, origin c))
     (outstanding (final drain_race (new_server plain_options)) ''s1'') =
   [(1, [2], FromBufferedAudio), (2, [3], FromAudioData)]"
  by (simp add: drain_race_def final_def new_server_def plain_options_def mk_params_def
      mk_result_def outstanding_def handleConnection_def addConnection_def empty_registry_def
      handleAudioData_def handleControlMessage_def call_completed_def processBufferedAudio_def
      drain_def processAudioBuffer_def processAudioBuffer_resumed_def with_llm_def
      send_def sendMessage_def set_metadata_def paused_def getConnection_def chunk_of_def Let_def)




subsection \<open>A dispatch by \<open>handleAudioData\<close> and what follows it\<close>

lemma dispatch_then_run:
  assumes "fresh_ids st" "quiet st sid" "processingQueue st sid = None"
    and "connections (wsManager st) sid = Some conn" "\<not> paused conn"
    and "sessionBuffers st sid = Some b"
    and "\<forall>x \<in> set evs. during_call sid (next_call st) (snd x)"
  shows "filter (is_dispatch sid) (snd (turn (t0, Frame sid d) st)) =
           [ProcessAudio (next_call st) sid (concat (b @ [d])) (metadata conn)]"
    and "buffered (fst (turn (t0, Frame sid d) st)) sid = []"
    and "guarded (final ((t0, Frame sid d) # evs) st) sid (next_call st)"
    and "fresh_ids (final ((t0, Frame sid d) # evs) st)"
    and "buffered (final ((t0, Frame sid d) # evs) st) sid = accepted sid False evs"
    and "map payload (outstanding (final ((t0, Frame sid d) # evs) st) sid) = [concat (b @ [d])]"
    and "dispatches sid (snd (run evs (fst (turn (t0, Frame sid d) st)))) = []"
proof -
  let ?i = "next_call st"
  obtain p e2 where h: "handleAudioData t0 sid d st =
     (st\<lparr>sessionBuffers := (sessionBuffers st)(sid \<mapsto> []),
         calls := calls st @ [\<lparr>call_id = ?i, call_session = sid,
                               payload = concat (b @ [d]), call_metadata = metadata conn,
                               origin = FromAudioData\<rparr>],
         next_call := ?i + 1,
         processingQueue := (processingQueue st)(sid \<mapsto> ?i),
         llmProcessor := p\<rparr>,
      [Emit (AudioChunkEvent (chunk_of t0 sid d conn))] @ e2 @
      [ProcessAudio ?i sid (concat (b @ [d])) (metadata conn)])"
    "\<not> list_ex (is_dispatch sid) e2"
    by (rule handleAudioData_dispatch[OF assms(4,5,6,3), of t0 d])
  define st1 where "st1 = fst (turn (t0, Frame sid d) st)"
  have st1: "st1 = st\<lparr>sessionBuffers := (sessionBuffers st)(sid \<mapsto> []),
         calls := calls st @ [\<lparr>call_id = ?i, call_session = sid,
                               payload = concat (b @ [d]), call_metadata = metadata conn,
                               origin = FromAudioData\<rparr>],
         next_call := ?i + 1,
         processingQueue := (processingQueue st)(sid \<mapsto> ?i),
         llmProcessor := p\<rparr>"
    unfolding st1_def using h(1) by simp
  have o: "outstanding st sid = []" "waiters st sid = []"
    using assms(2,3) by (simp_all add: quiet_def)
  have o1: "outstanding st1 sid = [\<lparr>call_id = ?i, call_session = sid,
                               payload = concat (b @ [d]), call_metadata = metadata conn,
                               origin = FromAudioData\<rparr>]"
    "waiters st1 sid = []" "processingQueue st1 sid = Some ?i"
    "connections (wsManager st1) sid = Some conn" "sessionBuffers st1 sid = Some []"
    using o assms(4) by (subst st1, simp add: outstanding_def waiters_def)+
  have g1: "guarded st1 sid ?i" using o1 by (simp add: guarded_def quiet_def)
  have f1: "fresh_ids st1" unfolding st1_def by (rule turn_fresh[OF assms(1)])
  have p1: "is_paused st1 sid = False" "buffered st1 sid = []"
    using o1 assms(5) by (simp_all add: is_paused_def buffered_def)
  note r = guarded_run[OF f1 g1 assms(7)]
  show "filter (is_dispatch sid) (snd (turn (t0, Frame sid d) st)) =
           [ProcessAudio ?i sid (concat (b @ [d])) (metadata conn)]"
    using h by (simp add: no_dispatch_filter)
  show "buffered (fst (turn (t0, Frame sid d) st)) sid = []"
    using p1 by (simp add: st1_def)
  show "guarded (final ((t0, Frame sid d) # evs) st) sid ?i"
    "fresh_ids (final ((t0, Frame sid d) # evs) st)"
    "buffered (final ((t0, Frame sid d) # evs) st) sid = accepted sid False evs"
    "map payload (outstanding (final ((t0, Frame sid d) # evs) st) sid) = [concat (b @ [d])]"
    "dispatches sid (snd (run evs (fst (turn (t0, Frame sid d) st)))) = []"
    using r p1 o1(1) unfolding final_Cons st1_def[symmetric] by simp_all
qed

lemma idle_drained:
  "idle st sid \<Longrightarrow> outstanding st sid = [] \<and> processingQueue st sid = None"
  by (auto simp: idle_def quiet_def)

lemma completion_of_guarded:
  assumes "fresh_ids st" "guarded st sid i" "turn (now, Completes i out) st = (st', es)"
  shows "idle st' sid \<and> fresh_ids st' \<and> processingQueue st' sid = None \<and> outstanding st' sid = [] \<and>
         buffered st' sid = buffered st sid \<and> is_paused st' sid = is_paused st sid \<and>
         filter (is_dispatch sid) es = [] \<and>
         (\<forall>err. out = Rejected err \<longrightarrow> take 1 es = [Emit (ErrorEvent sid err)])"
proof -
  have q: "quiet st sid" "processingQueue st sid = Some i"
    "connections (wsManager st) sid \<noteq> None" "sessionBuffers st sid \<noteq> None"
    using assms(2) by (simp_all add: guarded_def)
  have cc: "call_completed now i out st = (st', es)" using assms(3) by simp
  note k = call_completed_quiet[OF assms(1) q(1,2) cc]
  from k obtain c rest where c: "outstanding st sid = [c]"
    "es = snd (processAudioBuffer_resumed now c out
                        (st\<lparr>calls := filter (\<lambda>c'. call_id c' \<noteq> i) (calls st)\<rparr>)) @ rest"
    by blast
  have "c \<in> set (outstanding st sid)" using c(1) by simp
  then have cs: "call_session c = sid" by (simp add: outstanding_def)
  have err: "take 1 es = [Emit (ErrorEvent sid e)]" if "out = Rejected e" for e
    using c(2) cs that by (simp add: processAudioBuffer_resumed_def)
  have f: "fresh_ids st'" using turn_fresh[OF assms(1), of "(now, Completes i out)"] assms(3) by simp
  have sc: "same_connection (connections (wsManager st') sid) (connections (wsManager st) sid)"
    using k by simp
  have reg: "connections (wsManager st') sid \<noteq> None"
    using same_connection_None[OF sc] q(3) by simp
  have pa: "is_paused st' sid = is_paused st sid"
    unfolding is_paused_def by (rule same_connection_paused[OF sc])
  have id: "idle st' sid" using k reg q(4) by (simp add: idle_def)
  show ?thesis using k err f pa id
    by (simp add: buffered_def no_dispatch_filter)
qed

text \<open>
  C2 (drain on completion), as the code has it. A session with nothing outstanding
  accepts a frame: \<open>handleAudioData\<close> dispatches one call with everything buffered so
  far and the frame. Whatever happens until that call completes, short of a
  stop-recording, a new connection or the close of the session: no further call is
  started for the session, and the frames it sends while not paused accumulate in the
  buffer. When the call completes, with success or failure, the entry of the processing
  queue is released and again no call is started; nor does anything that follows start
  one, short of a frame or a stop-recording of the session (and its connection or
  close): over the whole run exactly one call was dispatched, nothing is outstanding,
  and the accumulated audio stays buffered. The next frame of the session is dispatched
  in one call together with it when the session is not paused at that moment; when it
  is paused, the frame is dropped and the turn changes nothing. As long as no
  stop-recording of the session is handled, at most one call of the session is
  outstanding.
\<close>

theorem completion_starts_no_call:
  "fresh_ids st \<and> quiet st sid \<and> processingQueue st sid = None \<and>
   connections (wsManager st) sid = Some conn \<and> \<not> paused conn \<and> sessionBuffers st sid = Some b \<and>
   (\<forall>x \<in> set evs. during_call sid (next_call st) (snd x)) \<and>
   (\<forall>x \<in> set evs2. after_call sid (snd x)) \<longrightarrow>
     dispatches sid (snd (run ((t0, Frame sid d) # evs @
          (t1, Completes (next_call st) out) # evs2) st)) =
       [ProcessAudio (next_call st) sid (concat (b @ [d])) (metadata conn)] \<and>
     map payload (outstanding (final ((t0, Frame sid d) # evs) st) sid) = [concat (b @ [d])] \<and>
     outstanding (final ((t0, Frame sid d) # evs @
          (t1, Completes (next_call st) out) # evs2) st) sid = [] \<and>
     processingQueue (final ((t0, Frame sid d) # evs @
          (t1, Completes (next_call st) out) # evs2) st) sid = None \<and>
     buffered (final ((t0, Frame sid d) # evs @
          (t1, Completes (next_call st) out) # evs2) st) sid = accepted sid False evs \<and>
     (\<not> is_paused (final ((t0, Frame sid d) # evs @
          (t1, Completes (next_call st) out) # evs2) st) sid \<longrightarrow>
        map payload (outstanding
          (final ((t0, Frame sid d) # evs @
             (t1, Completes (next_call st) out) # evs2 @ [(t2, Frame sid d')]) st) sid) =
          [concat (accepted sid False evs @ [d'])] \<and>
        buffered
          (final ((t0, Frame sid d) # evs @
             (t1, Completes (next_call st) out) # evs2 @ [(t2, Frame sid d')]) st) sid = []) \<and>
     (is_paused (final ((t0, Frame sid d) # evs @
          (t1, Completes (next_call st) out) # evs2) st) sid \<longrightarrow>
        turn (t2, Frame sid d')
          (final ((t0, Frame sid d) # evs @ (t1, Completes (next_call st) out) # evs2) st) =
          (final ((t0, Frame sid d) # evs @ (t1, Completes (next_call st) out) # evs2) st, [])) \<and>
     ((\<forall>x \<in> set evs'. snd x \<noteq> Control sid StopRecording) \<longrightarrow>
        length (outstanding (final evs' st) sid) \<le> 1)"
proof (intro impI, elim conjE)
  assume a: "fresh_ids st" "quiet st sid" "processingQueue st sid = None"
    "connections (wsManager st) sid = Some conn" "\<not> paused conn" "sessionBuffers st sid = Some b"
    "\<forall>x \<in> set evs. during_call sid (next_call st) (snd x)"
    and a2: "\<forall>x \<in> set evs2. after_call sid (snd x)"
  let ?i = "next_call st"
  let ?pre = "(t0, Frame sid d) # evs"
  let ?c = "(t1, Completes ?i out)"
  define st2 where "st2 = final ?pre st"
  obtain st3 e3 where t3: "turn ?c st2 = (st3, e3)"
    by (cases "turn ?c st2") auto
  define st4 where "st4 = final evs2 st3"
  note d = dispatch_then_run[OF a, of t0 d]
  note c = completion_of_guarded[OF d(4,3)[folded st2_def] t3]
  have i3: "idle st3 sid" "fresh_ids st3" using c by simp_all
  note r = idle_run[OF i3(2,1) a2, folded st4_def]
  have split: "(t0, Frame sid d) # evs @ ?c # evs2 = ?pre @ [?c] @ evs2"
    "(t0, Frame sid d) # evs @ ?c # evs2 @ [(t2, Frame sid d')] =
       (?pre @ [?c] @ evs2) @ [(t2, Frame sid d')]"
    by simp_all
  have fin3: "final (?pre @ [?c]) st = st3"
    unfolding final_append st2_def[symmetric] using t3 by (simp add: final_def)
  have fin: "final (?pre @ [?c] @ evs2) st = st4"
    using final_append[of "?pre @ [?c]" evs2 st] fin3 by (simp add: st4_def)
  have eff: "dispatches sid (snd (run (?pre @ [?c] @ evs2) st)) =
       [ProcessAudio ?i sid (concat (b @ [d])) (metadata conn)]"
  proof -
    have 1: "snd (run (?pre @ [?c] @ evs2) st) =
        snd (run ?pre st) @ snd (run [?c] st2) @ snd (run evs2 st3)"
      using run_append_effects[of "?pre @ [?c]" evs2 st] run_append_effects[of ?pre "[?c]" st]
        fin3 by (simp add: st2_def)
    have 2: "dispatches sid (snd (run ?pre st)) =
        [ProcessAudio ?i sid (concat (b @ [d])) (metadata conn)]"
      unfolding run_Cons_effects using d(1,7) by (simp add: dispatches_simps)
    have 3: "dispatches sid (snd (run [?c] st2)) = []"
      using c t3 by (simp add: dispatches_simps)
    have 4: "dispatches sid (snd (run evs2 st3)) = []" using r by simp
    show ?thesis unfolding 1 dispatches_simps 2 3 4 by simp
  qed
  have b4: "buffered st4 sid = accepted sid False evs"
    using r c d(5)[folded st2_def] by simp
  have o4: "outstanding st4 sid = []" "processingQueue st4 sid = None"
    using r idle_drained[of st4 sid] by simp_all
  obtain conn4 bf4 where c4: "connections (wsManager st4) sid = Some conn4"
    "sessionBuffers st4 sid = Some bf4" using r by (auto simp: idle_def)
  have bf4: "bf4 = accepted sid False evs" using b4 c4 by (simp add: buffered_def)
  have next_frame: "map payload (outstanding (final ((?pre @ [?c] @ evs2) @ [(t2, Frame sid d')]) st) sid) =
          [concat (accepted sid False evs @ [d'])] \<and>
        buffered (final ((?pre @ [?c] @ evs2) @ [(t2, Frame sid d')]) st) sid = []"
    if np: "\<not> is_paused st4 sid"
  proof -
    have np4: "\<not> paused conn4" using np c4 by (simp add: is_paused_def)
    have q4: "quiet st4 sid" "fresh_ids st4" using r by (simp_all add: idle_def)
    note dd = dispatch_then_run[OF q4(2,1) o4(2) c4(1) np4 c4(2), of "[]" t2 d']
    have "final ((?pre @ [?c] @ evs2) @ [(t2, Frame sid d')]) st = final [(t2, Frame sid d')] st4"
      using final_append[of "?pre @ [?c] @ evs2" "[(t2, Frame sid d')]" st] fin by simp
    then show ?thesis using dd(5,6) bf4 by simp
  qed
  have dropped: "turn (t2, Frame sid d') st4 = (st4, [])" if p: "is_paused st4 sid"
  proof -
    have "paused conn4" using p c4 by (simp add: is_paused_def)
    then show ?thesis using c4 handleAudioData_ignored[of st4 sid t2 d'] by simp
  qed
  have le: "length (outstanding (final evs' st) sid) \<le> 1"
    if "\<forall>x \<in> set evs'. snd x \<noteq> Control sid StopRecording"
    using quiet_run[OF a(1,2) that] quiet_le_one by blast
  show "dispatches sid (snd (run ((t0, Frame sid d) # evs @
          (t1, Completes (next_call st) out) # evs2) st)) =
       [ProcessAudio (next_call st) sid (concat (b @ [d])) (metadata conn)] \<and>
     map payload (outstanding (final ((t0, Frame sid d) # evs) st) sid) = [concat (b @ [d])] \<and>
     outstanding (final ((t0, Frame sid d) # evs @
          (t1, Completes (next_call st) out) # evs2) st) sid = [] \<and>
     processingQueue (final ((t0, Frame sid d) # evs @
          (t1, Completes (next_call st) out) # evs2) st) sid = None \<and>
     buffered (final ((t0, Frame sid d) # evs @
          (t1, Completes (next_call st) out) # evs2) st) sid = accepted sid False evs \<and>
     (\<not> is_paused (final ((t0, Frame sid d) # evs @
          (t1, Completes (next_call st) out) # evs2) st) sid \<longrightarrow>
        map payload (outstanding
          (final ((t0, Frame sid d) # evs @
             (t1, Completes (next_call st) out) # evs2 @ [(t2, Frame sid d')]) st) sid) =
          [concat (accepted sid False evs @ [d'])] \<and>
        buffered
          (final ((t0, Frame sid d) # evs @
             (t1, Completes (next_call st) out) # evs2 @ [(t2, Frame sid d')]) st) sid = []) \<and>
     (is_paused (final ((t0, Frame sid d) # evs @
          (t1, Completes (next_call st) out) # evs2) st) sid \<longrightarrow>
        turn (t2, Frame sid d')
          (final ((t0, Frame sid d) # evs @ (t1, Completes (next_call st) out) # evs2) st) =
          (final ((t0, Frame sid d) # evs @ (t1, Completes (next_call st) out) # evs2) st, [])) \<and>
     ((\<forall>x \<in> set evs'. snd x \<noteq> Control sid StopRecording) \<longrightarrow>
        length (outstanding (final evs' st) sid) \<le> 1)"
    unfolding split fin using eff d(6) b4 o4 next_frame dropped le by blast
qed

text \<open>
  Witness of C2: the three frames of \<open>three_frames\<close>. The first frame is dispatched
  alone as call 0; the second and third stay buffered when call 0 completes. After a
  ping, a fourth frame is dispatched together with them. After a pause-recording
  instead, the fourth frame is dropped: the turn changes nothing and the two frames stay
  buffered.
\<close>

theorem completion_starts_no_call_witness:
  "map payload (outstanding (final (butlast three_frames) (new_server plain_options)) ''s1'') =
     [frame1000 1] \<and>
   buffered (final three_frames (new_server plain_options)) ''s1'' = [frame1000 2, frame1000 3] \<and>
   outstanding (final three_frames (new_server plain_options)) ''s1'' = [] \<and>
   map payload (outstanding
     (final (three_frames @ [(65, Control ''s1'' Ping), (70, Frame ''s1'' (frame1000 4))])
        (new_server plain_options)) ''s1'') = [frame1000 2 @ frame1000 3 @ frame1000 4] \<and>
   turn (70, Frame ''s1'' (frame1000 4))
     (final (three_frames @ [(65, Control ''s1'' PauseRecording)]) (new_server plain_options)) =
     (final (three_frames @ [(65, Control ''s1'' PauseRecording)]) (new_server plain_options), []) \<and>
   buffered (final (three_frames @ [(65, Control ''s1'' PauseRecording)]) (new_server plain_options))
     ''s1'' = [frame1000 2, frame1000 3]"
proof -
  let ?pre = "[(0, Connect (mk_params ''s1'' (Some ''u1''))), (5, Control ''s1'' StartRecording)]"
  define st1 where "st1 = final ?pre (new_server plain_options)"
  define conn where "conn = \<lparr>ws = 0, sessionId = ''s1'', userId = Some ''u1'',
       metadata = Some \<lparr>isRecording = Some True, isPaused = None, audioFormat = None\<rparr>,
       isAlive = True, lastActivity = 5\<rparr>"
  have st1: "st1 = (new_server plain_options)
       \<lparr>wsManager := \<lparr>connections = [''s1'' \<mapsto> conn], userConnections = [''u1'' \<mapsto> [''s1'']]\<rparr>,
        sessionBuffers := [''s1'' \<mapsto> []]\<rparr>"
    unfolding st1_def conn_def
    by (simp add: final_def new_server_def plain_options_def mk_params_def handleConnection_def
      addConnection_def empty_registry_def cap_reached_def set_add_def Let_def
      handleControlMessage_def getConnection_def set_metadata_def send_def sendMessage_def)
  let ?evs = "[(11, Frame ''s1'' (frame1000 2)), (12, Frame ''s1'' (frame1000 3))]"
  let ?out = "Resolved (mk_result ''hello'')"
  let ?f1 = "(10, Frame ''s1'' (frame1000 1))"
  let ?c = "(60, Completes 0 ?out)"
  let ?ping = "[(65, Control ''s1'' Ping)]"
  let ?pause = "[(65, Control ''s1'' PauseRecording)]"
  let ?f4 = "(70, Frame ''s1'' (frame1000 4))"
  have h: "fresh_ids st1" "quiet st1 ''s1''" "processingQueue st1 ''s1'' = None"
    "connections (wsManager st1) ''s1'' = Some conn" "\<not> paused conn" "sessionBuffers st1 ''s1'' = Some []"
    "next_call st1 = 0" "\<forall>x \<in> set ?evs. during_call ''s1'' (next_call st1) (snd x)"
    "\<forall>x \<in> set ?ping. after_call ''s1'' (snd x)" "\<forall>x \<in> set ?pause. after_call ''s1'' (snd x)"
    "\<forall>x \<in> set []. after_call ''s1'' (snd x)"
    unfolding st1 conn_def
    by (simp_all add: fresh_ids_def quiet_def waiters_def outstanding_def new_server_def paused_def)
  have split: "three_frames = ?pre @ (?f1 # ?evs @ ?c # [])"
    "butlast three_frames = ?pre @ (?f1 # ?evs)"
    "three_frames @ [(65, Control ''s1'' Ping), ?f4] = ?pre @ (?f1 # ?evs @ ?c # ?ping @ [?f4])"
    "three_frames @ ?pause = ?pre @ (?f1 # ?evs @ ?c # ?pause)"
    by (simp_all add: three_frames_def)
  have acc: "accepted ''s1'' False ?evs = [frame1000 2, frame1000 3]" by simp
  have p1: "\<not> is_paused (final (?f1 # ?evs @ ?c # ?ping) st1) ''s1''"
    unfolding st1 conn_def
    by (simp add: final_def is_paused_def handleAudioData_def getConnection_def with_llm_def
        processAudioBuffer_def new_server_def plain_options_def paused_def chunk_of_def Let_def
        call_completed_def processAudioBuffer_resumed_def send_def sendMessage_def
        handleControlMessage_def set_metadata_def mk_result_def)
  have p2: "is_paused (final (?f1 # ?evs @ ?c # ?pause) st1) ''s1''"
    unfolding st1 conn_def
    by (simp add: final_def is_paused_def handleAudioData_def getConnection_def with_llm_def
        processAudioBuffer_def new_server_def plain_options_def paused_def chunk_of_def Let_def
        call_completed_def processAudioBuffer_resumed_def send_def sendMessage_def
        handleControlMessage_def set_metadata_def mk_result_def)
  have r0: "map payload (outstanding (final (?f1 # ?evs) st1) ''s1'') = [frame1000 1]"
    "outstanding (final (?f1 # ?evs @ ?c # []) st1) ''s1'' = []"
    "buffered (final (?f1 # ?evs @ ?c # []) st1) ''s1'' = [frame1000 2, frame1000 3]"
    using completion_starts_no_call [of st1 "''s1''" conn "[]" ?evs "[]" 10 "frame1000 1" 60 ?out]
      h acc by simp_all
  have r1: "map payload (outstanding (final (?f1 # ?evs @ ?c # ?ping @ [?f4]) st1) ''s1'') =
          [frame1000 2 @ frame1000 3 @ frame1000 4]"
    using completion_starts_no_call [of st1 "''s1''" conn "[]" ?evs ?ping 10 "frame1000 1" 60 ?out
      70 "frame1000 4"] h acc p1 by simp
  have r2: "turn ?f4 (final (?f1 # ?evs @ ?c # ?pause) st1) = (final (?f1 # ?evs @ ?c # ?pause) st1, [])"
    "buffered (final (?f1 # ?evs @ ?c # ?pause) st1) ''s1'' = [frame1000 2, frame1000 3]"
    using completion_starts_no_call [of st1 "''s1''" conn "[]" ?evs ?pause 10 "frame1000 1" 60 ?out
      70 "frame1000 4"] h acc p2 by simp_all
  have f1: "final three_frames (new_server plain_options) = final (?f1 # ?evs @ ?c # []) st1"
    unfolding split(1) st1_def by (rule final_append)
  have f2: "final (butlast three_frames) (new_server plain_options) = final (?f1 # ?evs) st1"
    unfolding split(2) st1_def by (rule final_append)
  have f3: "final (three_frames @ [(65, Control ''s1'' Ping), ?f4]) (new_server plain_options) =
      final (?f1 # ?evs @ ?c # ?ping @ [?f4]) st1"
    unfolding split(3) st1_def by (rule final_append)
  have f4: "final (three_frames @ ?pause) (new_server plain_options) =
      final (?f1 # ?evs @ ?c # ?pause) st1"
    unfolding split(4) st1_def by (rule final_append)
  show ?thesis unfolding f1 f2 f3 f4 using r0 r1 r2 by simp
qed

text \<open>
  C2 as stated fails on the three frames of the spec's scenario. The second and third
  frame are buffered while call 0 is outstanding. The turn in which call 0 completes
  starts no call: its only effects are the transcription message and event, after it
  nothing is outstanding, and the two frames are still in the buffer. The source
  releases the queue entry in the \<^verbatim>\<open>finally\<close> of \<open>handleAudioData\<close> and has no
  dispatch after it.
\<close>

theorem drain_on_completion_counterexample:
  "buffered (final (butlast three_frames) (new_server plain_options)) ''s1'' =
     [frame1000 2, frame1000 3] \<and>
   snd (turn (last three_frames) (final (butlast three_frames) (new_server plain_options))) =
     [SendMessage ''s1'' (TranscriptionMessage (mk_result ''hello'')),
      Emit (TranscriptionEvent ''s1'' (mk_result ''hello''))] \<and>
   outstanding (final three_frames (new_server plain_options)) ''s1'' = [] \<and>
   buffered (final three_frames (new_server plain_options)) ''s1'' = [frame1000 2, frame1000 3]"
  by (simp add: three_frames_def final_def new_server_def plain_options_def mk_params_def
      mk_result_def outstanding_def buffered_def handleConnection_def addConnection_def
      empty_registry_def handleAudioData_def handleControlMessage_def call_completed_def
      processAudioBuffer_def processAudioBuffer_resumed_def with_llm_def
      send_def sendMessage_def set_metadata_def paused_def getConnection_def chunk_of_def Let_def)

text \<open>
  C9 (dispatched audio is lost on failure), as the code has it. A session with nothing
  outstanding accepts a frame: \<open>handleAudioData\<close> dispatches what is buffered together
  with the frame, and the buffer is empty from that moment, before the call is awaited.
  Until the call completes (no stop-recording, new connection or close of the session
  in between) the buffer collects the frames that the session sends while it is not
  paused; frames sent while it is paused are dropped. When the call fails, the turn
  begins with the error event of the session, starts no call, and leaves the buffer
  untouched: it holds exactly the frames accepted since the dispatch, and the dispatched
  payload is not among them.
\<close>

theorem failed_dispatch_not_restored:
  "fresh_ids st \<and> quiet st sid \<and> processingQueue st sid = None \<and>
   connections (wsManager st) sid = Some conn \<and> \<not> paused conn \<and> sessionBuffers st sid = Some b \<and>
   (\<forall>x \<in> set evs. during_call sid (next_call st) (snd x)) \<longrightarrow>
     filter (is_dispatch sid) (snd (turn (t0, Frame sid d) st)) =
       [ProcessAudio (next_call st) sid (concat (b @ [d])) (metadata conn)] \<and>
     buffered (fst (turn (t0, Frame sid d) st)) sid = [] \<and>
     buffered (final ((t0, Frame sid d) # evs) st) sid = accepted sid False evs \<and>
     take 1 (snd (turn (t1, Completes (next_call st) (Rejected err))
                    (final ((t0, Frame sid d) # evs) st))) = [Emit (ErrorEvent sid err)] \<and>
     filter (is_dispatch sid) (snd (turn (t1, Completes (next_call st) (Rejected err))
                    (final ((t0, Frame sid d) # evs) st))) = [] \<and>
     buffered (final ((t0, Frame sid d) # evs @ [(t1, Completes (next_call st) (Rejected err))]) st) sid =
       accepted sid False evs \<and>
     outstanding (final ((t0, Frame sid d) # evs @ [(t1, Completes (next_call st) (Rejected err))]) st) sid = []"
proof (intro impI, elim conjE)
  assume a: "fresh_ids st" "quiet st sid" "processingQueue st sid = None"
    "connections (wsManager st) sid = Some conn" "\<not> paused conn" "sessionBuffers st sid = Some b"
    "\<forall>x \<in> set evs. during_call sid (next_call st) (snd x)"
  let ?i = "next_call st"
  let ?pre = "(t0, Frame sid d) # evs"
  define st2 where "st2 = final ?pre st"
  obtain st3 e3 where t3: "turn (t1, Completes ?i (Rejected err)) st2 = (st3, e3)"
    by (cases "turn (t1, Completes ?i (Rejected err)) st2") auto
  note d = dispatch_then_run[OF a, of t0 d]
  note c = completion_of_guarded[OF d(4,3)[folded st2_def] t3]
  have fin: "final (?pre @ [(t1, Completes ?i (Rejected err))]) st = st3"
    unfolding final_append st2_def[symmetric] using t3 by (simp add: final_def)
  show "filter (is_dispatch sid) (snd (turn (t0, Frame sid d) st)) =
       [ProcessAudio (next_call st) sid (concat (b @ [d])) (metadata conn)] \<and>
     buffered (fst (turn (t0, Frame sid d) st)) sid = [] \<and>
     buffered (final ((t0, Frame sid d) # evs) st) sid = accepted sid False evs \<and>
     take 1 (snd (turn (t1, Completes (next_call st) (Rejected err))
                    (final ((t0, Frame sid d) # evs) st))) = [Emit (ErrorEvent sid err)] \<and>
     filter (is_dispatch sid) (snd (turn (t1, Completes (next_call st) (Rejected err))
                    (final ((t0, Frame sid d) # evs) st))) = [] \<and>
     buffered (final ((t0, Frame sid d) # evs @ [(t1, Completes (next_call st) (Rejected err))]) st) sid =
       accepted sid False evs \<and>
     outstanding (final ((t0, Frame sid d) # evs @ [(t1, Completes (next_call st) (Rejected err))]) st) sid = []"
    using d(1,2) d(5)[folded st2_def] c t3 fin unfolding st2_def[symmetric] by simp
qed

text \<open>
  Witness of C9: the call for frame \<open>[1]\<close> fails after frame \<open>[2]\<close> has arrived, frame
  \<open>[3]\<close> has arrived during a pause, and frame \<open>[4]\<close> has arrived after the resume. The
  turn of the failure begins with the error event, and the buffer holds \<open>[2]\<close> and
  \<open>[4]\<close>: neither the dispatched \<open>[1]\<close> nor the dropped \<open>[3]\<close>.
\<close>

theorem failed_dispatch_not_restored_witness:
  "take 1 (snd (turn (70, Completes 0 (Rejected ''timeout''))
      (final [(0, Connect (mk_params ''s1'' (Some ''u1''))), (10, Frame ''s1'' [1]),
              (20, Frame ''s1'' [2]), (30, Control ''s1'' PauseRecording), (40, Frame ''s1'' [3]),
              (50, Control ''s1'' ResumeRecording), (60, Frame ''s1'' [4])]
         (new_server plain_options)))) = [Emit (ErrorEvent ''s1'' ''timeout'')] \<and>
   buffered (final [(0, Connect (mk_params ''s1'' (Some ''u1''))), (10, Frame ''s1'' [1]),
              (20, Frame ''s1'' [2]), (30, Control ''s1'' PauseRecording), (40, Frame ''s1'' [3]),
              (50, Control ''s1'' ResumeRecording), (60, Frame ''s1'' [4]),
              (70, Completes 0 (Rejected ''timeout''))]
         (new_server plain_options)) ''s1'' = [[2], [4]]"
proof -
  let ?pre = "[(0, Connect (mk_params ''s1'' (Some ''u1'')))]"
  define st1 where "st1 = final ?pre (new_server plain_options)"
  define conn where "conn = \<lparr>ws = 0, sessionId = ''s1'', userId = Some ''u1'',
       metadata = None, isAlive = True, lastActivity = 0\<rparr>"
  have st1: "st1 = (new_server plain_options)
       \<lparr>wsManager := \<lparr>connections = [''s1'' \<mapsto> conn], userConnections = [''u1'' \<mapsto> [''s1'']]\<rparr>,
        sessionBuffers := [''s1'' \<mapsto> []]\<rparr>"
    unfolding st1_def conn_def
    by (simp add: final_def new_server_def plain_options_def mk_params_def handleConnection_def
      addConnection_def empty_registry_def cap_reached_def set_add_def Let_def)
  let ?evs = "[(20, Frame ''s1'' [2]), (30, Control ''s1'' PauseRecording), (40, Frame ''s1'' [3]),
              (50, Control ''s1'' ResumeRecording), (60, Frame ''s1'' [4])]"
  let ?f1 = "(10, Frame ''s1'' [1])"
  let ?c = "(70, Completes 0 (Rejected ''timeout''))"
  have h: "fresh_ids st1" "quiet st1 ''s1''" "processingQueue st1 ''s1'' = None"
    "connections (wsManager st1) ''s1'' = Some conn" "\<not> paused conn" "sessionBuffers st1 ''s1'' = Some []"
    "next_call st1 = 0" "\<forall>x \<in> set ?evs. during_call ''s1'' (next_call st1) (snd x)"
    unfolding st1 conn_def
    by (simp_all add: fresh_ids_def quiet_def waiters_def outstanding_def new_server_def paused_def)
  have acc: "accepted ''s1'' False ?evs = [[2], [4]]" by simp
  from failed_dispatch_not_restored [of st1 "''s1''" conn "[]" ?evs 10 "[1]" 70 "''timeout''"] h acc
  have r: "take 1 (snd (turn ?c (final (?f1 # ?evs) st1))) = [Emit (ErrorEvent ''s1'' ''timeout'')]"
    "buffered (final (?f1 # ?evs @ [?c]) st1) ''s1'' = [[2], [4]]"
    by simp_all
  have f1: "final (?pre @ (?f1 # ?evs)) (new_server plain_options) = final (?f1 # ?evs) st1"
    unfolding st1_def by (rule final_append)
  have f2: "final (?pre @ (?f1 # ?evs @ [?c])) (new_server plain_options) = final (?f1 # ?evs @ [?c]) st1"
    unfolding st1_def by (rule final_append)
  show ?thesis using r f1 f2 by simp
qed

text \<open>
  C9 as stated fails in the run \<open>paused_frame\<close>: frame \<open>[2]\<close> arrives after the dispatch
  of frame \<open>[1]\<close> began, but the session is paused, and \<open>handleAudioData\<close> returns before
  buffering when \<^verbatim>\<open>connection.metadata?.isPaused\<close> holds. After the error event of the
  failed call the buffer is empty.
\<close>

theorem paused_frame_counterexample:
  "paused_frame ! 3 = (30, Frame ''s1'' [2]) \<and>
   snd (turn (last paused_frame) (final (butlast paused_frame) (new_server plain_options))) =
     [Emit (ErrorEvent ''s1'' ''timeout'')] \<and>
   map payload (outstanding (final (butlast paused_frame) (new_server plain_options)) ''s1'') = [[1]] \<and>
   buffered (final paused_frame (new_server plain_options)) ''s1'' = []"
  by (simp add: paused_frame_def final_def new_server_def plain_options_def mk_params_def
      outstanding_def buffered_def handleConnection_def addConnection_def
      empty_registry_def handleAudioData_def handleControlMessage_def call_completed_def
      processAudioBuffer_def processAudioBuffer_resumed_def with_llm_def
      send_def sendMessage_def set_metadata_def paused_def getConnection_def chunk_of_def Let_def)

text \<open>
  C3 (drain completeness): the code breaks it. In the run \<open>stop_race\<close> the session
  sends stop-recording while call 0 is outstanding and frame \<open>[2]\<close> is buffered. The
  drain waits for call 0 and then dispatches \<open>[2]\<close> as call 1, outside the processing
  queue. While call 1 is outstanding, frame \<open>[3]\<close> arrives and is dispatched as call 2,
  and frame \<open>[4]\<close> arrives and is buffered. The turn in which call 1 completes sends the
  acknowledgement of the stop, and at that instant the buffer holds \<open>[4]\<close> and call 2 is
  outstanding.
\<close>

theorem stop_ack_drain_race:
  "snd (turn (last stop_race) (final (butlast stop_race) (new_server plain_options))) =
     [SendMessage ''s1'' (TranscriptionMessage (mk_result ''b'')),
      Emit (TranscriptionEvent ''s1'' (mk_result ''b'')),
      SendMessage ''s1'' (RecordingStopped 90)] \<and>
   buffered (final stop_race (new_server plain_options)) ''s1'' = [[4]] \<and>
   map payload (outstanding (final stop_race (new_server plain_options)) ''s1'') = [[3]]"
  by (simp add: stop_race_def drain_race_def final_def new_server_def plain_options_def
      mk_params_def mk_result_def outstanding_def buffered_def handleConnection_def
      addConnection_def empty_registry_def handleAudioData_def handleControlMessage_def
      call_completed_def processBufferedAudio_def drain_def processAudioBuffer_def
      processAudioBuffer_resumed_def with_llm_def send_def sendMessage_def set_metadata_def
      paused_def getConnection_def chunk_of_def Let_def)

end
